theory Spec2Isabelle
  imports Complex_Main "HOL-Library.Sublist"
begin

section \<open>Python strings\<close>

text \<open>
  A Python \<open>str\<close> is modelled as a \<open>string\<close> whose characters are the code points
  0..255; \<open>code c\<close> is the code point of \<open>c\<close>.
\<close>

definition code :: "char \<Rightarrow> nat" where
  "code c = of_char c"

text \<open>
  \<open>str.isspace\<close>, the separators of \<open>str.split()\<close>, the characters removed by
  \<open>str.strip()\<close> and the class \<open>\s\<close> of \<open>re\<close> on a \<open>str\<close> pattern are one set of
  code points; below 256 it is the one listed here.
\<close>

definition isspace :: "char \<Rightarrow> bool" where
  "isspace c = (code c \<in> {9, 10, 11, 12, 13, 28, 29, 30, 31, 32, 133, 160})"

text \<open>\<open>str.lower()\<close> below 256: A-Z and the Latin-1 capitals (all of 192..222 but 215).\<close>

definition lower_char :: "char \<Rightarrow> char" where
  "lower_char c =
     (let n = code c
      in if (65 \<le> n \<and> n \<le> 90) \<or> (192 \<le> n \<and> n \<le> 222 \<and> n \<noteq> 215)
         then char_of (n + 32) else c)"

definition lower :: "string \<Rightarrow> string" where
  "lower s = map lower_char s"

text \<open>\<open>sub in s\<close> on strings: \<open>sub\<close> occurs in \<open>s\<close> as a contiguous block.\<close>

fun starts_with :: "string \<Rightarrow> string \<Rightarrow> bool" where
  "starts_with s [] = True"
| "starts_with [] (p # ps) = False"
| "starts_with (c # cs) (p # ps) = (c = p \<and> starts_with cs ps)"

fun contains :: "string \<Rightarrow> string \<Rightarrow> bool" where
  "contains [] sub = (sub = [])"
| "contains (c # cs) sub = (starts_with (c # cs) sub \<or> contains cs sub)"

text \<open>\<open>s.strip()\<close>: whitespace removed at both ends.\<close>

definition lstrip :: "string \<Rightarrow> string" where
  "lstrip s = dropWhile isspace s"

definition rstrip :: "string \<Rightarrow> string" where
  "rstrip s = rev (dropWhile isspace (rev s))"

definition strip :: "string \<Rightarrow> string" where
  "strip s = rstrip (lstrip s)"

text \<open>
  \<open>s.split()\<close>: the maximal runs of non-whitespace characters, in order. \<open>split_acc w s\<close>
  carries the word being read (empty between words).
\<close>

fun split_acc :: "string \<Rightarrow> string \<Rightarrow> string list" where
  "split_acc w [] = (if w = [] then [] else [w])"
| "split_acc w (c # cs) =
     (if isspace c then (if w = [] then split_acc [] cs else w # split_acc [] cs)
      else split_acc (w @ [c]) cs)"

definition split :: "string \<Rightarrow> string list" where
  "split s = split_acc [] s"

text \<open>\<open>' '.join(ws)\<close>.\<close>

fun join_space :: "string list \<Rightarrow> string" where
  "join_space [] = []"
| "join_space [w] = w"
| "join_space (w # v # ws) = w @ CHR '' '' # join_space (v # ws)"

section \<open>JSON values\<close>

text \<open>
  What \<open>json.loads\<close> returns: \<open>None\<close>, a bool, a number, a \<open>str\<close>, a list or a dict.
  A dict is an association list that holds each key once; \<open>d.get(k)\<close> is \<open>map_of\<close>.
  Of a number the program reads only whether it is zero, so it is a rational here.
  The decoder itself belongs to the standard library: every function that decodes takes
  it as the parameter \<open>json_loads\<close>, of type \<open>string \<Rightarrow> json option\<close>, where \<open>None\<close> stands
  for \<open>json.JSONDecodeError\<close>. Any other exception of \<open>json.loads\<close> (a \<open>RecursionError\<close> on
  deeply nested text, a \<open>ValueError\<close> on an oversized number) is outside the model.
\<close>

datatype json =
    JNull
  | JBool bool
  | JNum rat
  | JStr string
  | JArr "json list"
  | JObj "(string \<times> json) list"

text \<open>Python truthiness of a decoded value (\<open>if v\<close>, \<open>not v\<close>).\<close>

fun truthy :: "json \<Rightarrow> bool" where
  "truthy JNull = False"
| "truthy (JBool b) = b"
| "truthy (JNum n) = (n \<noteq> 0)"
| "truthy (JStr s) = (s \<noteq> [])"
| "truthy (JArr xs) = (xs \<noteq> [])"
| "truthy (JObj kvs) = (kvs \<noteq> [])"

section \<open>Errors and model calls\<close>

text \<open>
  The exceptions the modelled code can raise. \<open>ModelError m\<close> is an exception raised by a
  call of the language model, \<open>m\<close> its \<open>str(e)\<close>. \<open>PythonError\<close> is the exception of an
  operation applied to a value of the wrong type (\<open>AttributeError\<close>, \<open>TypeError\<close>, the
  validation error of an event field declared \<open>str\<close>); no handler of the program tells
  these apart.
\<close>

datatype error = ModelError string | PythonError

text \<open>
  The outcome of one call of the language model (\<open>llm.acomplete\<close>, \<open>llm.achat\<close>): the text
  of the reply (\<open>.text\<close>, \<open>.message.content\<close>, taken to be a \<open>str\<close>), or an exception.
\<close>

datatype llm_result = Reply string | Raises string

section \<open>chat\_engine.py: history window\<close>

datatype MessageRole = USER | ASSISTANT | SYSTEM

record ChatMessage =
  role :: MessageRole
  content :: string

text \<open>A session message \<open>{"role": r, "content": c}\<close> is the pair \<open>(r, c)\<close>.\<close>

type_synonym message = "string \<times> string"

text \<open>\<open>xs[-n:]\<close> for \<open>n > 0\<close>: the last \<open>n\<close> elements, all of them when there are fewer.\<close>

definition last_n :: "nat \<Rightarrow> 'a list \<Rightarrow> 'a list" where
  "last_n n xs = drop (length xs - n) xs"

definition format_message :: "message \<Rightarrow> ChatMessage" where
  "format_message m =
     \<lparr>role = (if fst m = ''user'' then USER else ASSISTANT), content = snd m\<rparr>"

text \<open>
  \<open>create_chat_engine\<close>: the \<open>chat_history\<close> with which the workflow is constructed
  (\<open>formatted_chat_history\<close>); an empty or absent history gives the empty list.
\<close>

definition create_chat_engine :: "message list \<Rightarrow> ChatMessage list" where
  "create_chat_engine chat_history =
     (if chat_history = [] then [] else map format_message (last_n 20 chat_history))"

section \<open>chat\_engine.py: events\<close>

record ResponseEvent =
  response :: string
  action_type :: string
  original_query :: "string option"
  cart_items :: "json list option"

record ChatResponseStopEvent =
  stop_response :: string
  stop_action_type :: string
  stop_cart_items :: "json list option"

text \<open>What a step returns: a \<open>ResponseEvent\<close> for the next step, or the stop event.\<close>

datatype step_result = Respond ResponseEvent | Stop ChatResponseStopEvent

section \<open>chat\_engine.py: response generators\<close>

text \<open>
  Each handler sends the history, the query and its template to the model; the model's
  outcome is the argument here. A reply is returned as it is; an exception is caught and
  turned into the handler's message, which ends with \<open>str(e)\<close>.
\<close>

definition handle_menu_query :: "llm_result \<Rightarrow> string" where
  "handle_menu_query r =
     (case r of
        Reply c \<Rightarrow> c
      | Raises e \<Rightarrow> ''I'm sorry, I had trouble providing menu information. Error: '' @ e)"

definition handle_end_conversation :: "llm_result \<Rightarrow> string" where
  "handle_end_conversation r =
     (case r of
        Reply c \<Rightarrow> c
      | Raises e \<Rightarrow> ''I'm sorry, I had trouble saying goodbye. Error: '' @ e)"

subsection \<open>Cart extraction\<close>

text \<open>
  One match of \<open>\{(?:[^{}]|(?:\{[^{}]*\}))*\}\<close> after its opening brace: \<open>scan_obj inner s\<close>
  reads \<open>s\<close> up to the closing brace of the match and returns the text read and the rest.
  \<open>inner\<close> holds inside a nested pair of braces, where a second opening brace makes the
  match fail, as does the end of the text anywhere.
\<close>

fun scan_obj :: "bool \<Rightarrow> string \<Rightarrow> (string \<times> string) option" where
  "scan_obj inner [] = None"
| "scan_obj inner (c # cs) =
     (if c = CHR ''{'' then
        (if inner then None
         else map_option (\<lambda>(m, r). (c # m, r)) (scan_obj True cs))
      else if c = CHR ''}'' then
        (if inner then map_option (\<lambda>(m, r). (c # m, r)) (scan_obj False cs)
         else Some ([c], cs))
      else map_option (\<lambda>(m, r). (c # m, r)) (scan_obj inner cs))"

lemma scan_obj_length: "scan_obj inner s = Some (m, r) \<Longrightarrow> length r < length s"
proof (induction s arbitrary: inner m)
  case Nil
  then show ?case by simp
next
  case (Cons c cs)
  then show ?case
    by (fastforce split: if_splits)
qed

text \<open>
  \<open>re.findall\<close> of that pattern: the matches from left to right, each search resuming
  where the last match ended, or one character on where no match starts.
\<close>

function findall_objects :: "string \<Rightarrow> string list" where
  "findall_objects [] = []"
| "findall_objects (c # cs) =
     (if c = CHR ''{'' then
        (case scan_obj False cs of
           Some (m, rest) \<Rightarrow> (c # m) # findall_objects rest
         | None \<Rightarrow> findall_objects cs)
      else findall_objects cs)"
  by pat_completeness auto
termination
  by (relation "measure length") (auto dest: scan_obj_length)

text \<open>
  The loop over the matches: the first one that decodes to a dict with the key
  \<open>"response"\<close> gives the response (any value) and the cart, which is the value of
  \<open>"cart"\<close> when that is a list and stays \<open>[]\<close> otherwise. A match that does not decode,
  or decodes to something else, is skipped.
\<close>

fun extract_first :: "(string \<Rightarrow> json option) \<Rightarrow> string list \<Rightarrow> (json \<times> json list) option" where
  "extract_first json_loads [] = None"
| "extract_first json_loads (json_str # rest) =
     (case json_loads json_str of
        Some (JObj data) \<Rightarrow>
          (case map_of data ''response'' of
             Some v \<Rightarrow>
               Some (v, (case map_of data ''cart'' of Some (JArr items) \<Rightarrow> items | _ \<Rightarrow> []))
           | None \<Rightarrow> extract_first json_loads rest)
      | _ \<Rightarrow> extract_first json_loads rest)"

text \<open>
  \<open>_handle_order_query\<close> returns the pair \<open>(response_content, cart_items)\<close>. \<open>cart_items\<close>
  starts as \<open>[]\<close> and is always a list; \<open>response_content\<close> is the reply, or the value
  under \<open>"response"\<close> of the accepted match, whatever its type.
\<close>

definition handle_order_query :: "(string \<Rightarrow> json option) \<Rightarrow> llm_result \<Rightarrow> json \<times> json list" where
  "handle_order_query json_loads r =
     (case r of
        Reply c \<Rightarrow>
          (case extract_first json_loads (findall_objects c) of
             Some (v, items) \<Rightarrow> (v, items)
           | None \<Rightarrow> (JStr c, []))
      | Raises e \<Rightarrow> (JStr (''I'm sorry, I had trouble with your order. Error: '' @ e), []))"

section \<open>chat\_engine.py: intent classification\<close>

definition valid_intents :: "string list" where
  "valid_intents = [''menu'', ''order'', ''greeting'', ''end'', ''irrelevant'', ''history'']"

text \<open>The message that replaces an unusable response of a directly answered intent.\<close>

definition fallback_message :: "string \<Rightarrow> string" where
  "fallback_message intent =
     (if intent = ''greeting'' then ''Hello! How can I help with the menu or your order?''
      else if intent = ''history'' then
        ''I can see you're asking about our previous conversation. How can I help you with our menu or placing an order?''
      else ''I'm sorry, I can only assist with questions about our menu and help you place an order.'')"

definition router_fragments :: "string list" where
  "router_fragments =
     [''{'', ''}'', ''[]'', ''['', '']'', ''{}'', '':'', [CHR 0x22, CHR 0x22], [CHR 0x27, CHR 0x27],
      '','', ''.'']"

text \<open>
  The check of \<open>direct_response\<close> for the intents greeting, irrelevant and history: a value
  that is not a \<open>str\<close>, is blank, or is one of the fragments gives the fallback message.
\<close>

definition repair_response :: "string \<Rightarrow> json \<Rightarrow> json" where
  "repair_response intent direct_response =
     (case direct_response of
        JStr s \<Rightarrow>
          (if strip s = [] then JStr (fallback_message intent)
           else if strip s \<in> set router_fragments then JStr (fallback_message intent)
           else JStr s)
      | _ \<Rightarrow> JStr (fallback_message intent))"

text \<open>
  The keyword scan of the raw text, taken when the text does not decode. It yields the
  intent and \<open>direct_response\<close>, which stays \<open>""\<close> unless a branch sets it.
\<close>

definition keyword_fallback :: "string \<Rightarrow> string \<times> json" where
  "keyword_fallback response_text =
     (let raw_text_lower = lower response_text
      in if contains raw_text_lower ''menu'' then (''menu'', JStr [])
         else if contains raw_text_lower ''order'' \<or> contains raw_text_lower ''cart''
                 \<or> contains raw_text_lower ''checkout'' then (''order'', JStr [])
         else if list_ex (contains raw_text_lower) [''hello'', ''hi '', '' how are''] then
           (''greeting'', JStr ''Hello! How can I help you with the menu or your order today?'')
         else if list_ex (contains raw_text_lower) [''bye'', ''thank you'', ''thanks''] then
           (''end'', JStr [])
         else
           (''irrelevant'',
            JStr ''I'm sorry, I had trouble understanding that. I can only assist with menu questions and food orders.''))"

text \<open>
  \<open>response_data.get("intent", "").lower() if response_data.get("intent") else ""\<close>:
  a truthy value that is not a \<open>str\<close> has no \<open>lower\<close>.
\<close>

definition intent_field :: "(string \<times> json) list \<Rightarrow> error + string" where
  "intent_field data =
     (case map_of data ''intent'' of
        None \<Rightarrow> Inr []
      | Some v \<Rightarrow>
          (if truthy v then (case v of JStr s \<Rightarrow> Inr (lower s) | _ \<Rightarrow> Inl PythonError)
           else Inr []))"

text \<open>\<open>response_data.get("response", "") if response_data.get("response") else ""\<close>.\<close>

definition response_field :: "(string \<times> json) list \<Rightarrow> json" where
  "response_field data =
     (case map_of data ''response'' of
        None \<Rightarrow> JStr []
      | Some v \<Rightarrow> (if truthy v then v else JStr []))"

text \<open>\<open>len(v)\<close>, which the log line evaluates: a number or a bool has no length.\<close>

definition py_len :: "json \<Rightarrow> error + nat" where
  "py_len v =
     (case v of
        JStr s \<Rightarrow> Inr (length s)
      | JArr xs \<Rightarrow> Inr (length xs)
      | JObj kvs \<Rightarrow> Inr (length kvs)
      | _ \<Rightarrow> Inl PythonError)"

text \<open>
  The parsing and repair of the router's reply (\<open>response_text\<close>, already stripped): the
  values of \<open>intent\<close> and \<open>direct_response\<close> with which the dispatch starts, or the
  exception that leaves the step.
\<close>

definition parse_router :: "(string \<Rightarrow> json option) \<Rightarrow> string \<Rightarrow> error + (string \<times> json)" where
  "parse_router json_loads response_text =
     (case json_loads response_text of
        None \<Rightarrow> Inr (keyword_fallback response_text)
      | Some (JObj data) \<Rightarrow>
          (case intent_field data of
             Inl e \<Rightarrow> Inl e
           | Inr intent0 \<Rightarrow>
               (let direct0 = response_field data;
                    invalid = (intent0 = [] \<or> intent0 \<notin> set valid_intents);
                    intent = (if invalid then ''irrelevant'' else intent0);
                    direct1 =
                      (if invalid \<and> \<not> truthy direct0 then
                         JStr ''I'm sorry, I encountered an issue. I can only assist with menu questions and food orders.''
                       else direct0);
                    direct2 =
                      (if intent \<in> set [''greeting'', ''irrelevant'', ''history'']
                       then repair_response intent direct1 else direct1)
                in case py_len direct2 of
                     Inl e \<Rightarrow> Inl e
                   | Inr n \<Rightarrow> Inr (intent, direct2)))
      | Some other \<Rightarrow>
          Inr (''irrelevant'',
               JStr ''I'm sorry, I encountered an issue processing the response. I can only assist with menu questions and food orders.''))"

section \<open>chat\_engine.py: the workflow steps\<close>

text \<open>The event that the \<open>except\<close> clause of the dispatch returns.\<close>

definition error_stop_event :: ChatResponseStopEvent where
  "error_stop_event =
     \<lparr>stop_response = ''I'm sorry, I encountered an error and cannot process your request. I can only assist with menu questions and food orders.'',
      stop_action_type = ''error'', stop_cart_items = None\<rparr>"

text \<open>
  A stop event whose text is \<open>direct_response\<close>. Its \<open>response\<close> field is declared \<open>str\<close>:
  with any other value the construction raises inside the \<open>try\<close>, whose \<open>except\<close> clause
  returns \<open>error_stop_event\<close>.
\<close>

definition direct_stop :: "json \<Rightarrow> string \<Rightarrow> step_result" where
  "direct_stop direct_response kind =
     (case direct_response of
        JStr s \<Rightarrow> Stop \<lparr>stop_response = s, stop_action_type = kind, stop_cart_items = None\<rparr>
      | _ \<Rightarrow> Stop error_stop_event)"

text \<open>
  The dispatch on \<open>intent\<close> (the \<open>try\<close> block that ends \<open>classify_and_respond\<close>).
  \<open>farewell\<close> is the outcome of the model call of \<open>_handle_end_conversation\<close>, made only
  for the intent end.
\<close>

definition dispatch :: "string \<Rightarrow> string \<Rightarrow> json \<Rightarrow> llm_result \<Rightarrow> step_result" where
  "dispatch query intent direct_response farewell =
     (if intent = ''menu'' then
        Respond \<lparr>response = ''Give us a moment while we research that for you.'',
                 action_type = ''menu_inquiry_pending'',
                 original_query = Some query, cart_items = None\<rparr>
      else if intent = ''order'' then
        Respond \<lparr>response =
                   (if list_ex (contains (lower query))
                         [''change'', ''modify'', ''add'', ''remove'', ''update'']
                    then ''Give us a moment while we get that order modification ready for you.''
                    else ''Give us a moment while we get that order ready for you.''),
                 action_type = ''order_action_pending'',
                 original_query = Some query, cart_items = None\<rparr>
      else if intent = ''greeting'' then direct_stop direct_response ''greeting''
      else if intent = ''end'' then
        Stop \<lparr>stop_response = handle_end_conversation farewell,
              stop_action_type = ''end_conversation'', stop_cart_items = None\<rparr>
      else if intent = ''history'' then direct_stop direct_response ''history_query''
      else if intent = ''irrelevant'' then direct_stop direct_response ''irrelevant_query''
      else
        Stop \<lparr>stop_response = ''I'm sorry, I'm not sure how to handle that. I can assist with menu questions and orders.'',
              stop_action_type = ''error'', stop_cart_items = None\<rparr>)"

text \<open>
  \<open>classify_and_respond\<close>. \<open>router\<close> is the outcome of the classification call, which
  stands outside every \<open>try\<close>: its exception leaves the step, as does one raised while
  the reply is parsed.
\<close>

definition classify_and_respond ::
  "(string \<Rightarrow> json option) \<Rightarrow> string \<Rightarrow> llm_result \<Rightarrow> llm_result \<Rightarrow> error + step_result" where
  "classify_and_respond json_loads query router farewell =
     (case router of
        Raises e \<Rightarrow> Inl (ModelError e)
      | Reply text \<Rightarrow>
          (case parse_router json_loads (strip text) of
             Inl e \<Rightarrow> Inl e
           | Inr (intent, direct_response) \<Rightarrow>
               Inr (dispatch query intent direct_response farewell)))"

text \<open>\<open>if ev.original_query\<close>: the query is there and is not empty.\<close>

definition has_query :: "ResponseEvent \<Rightarrow> bool" where
  "has_query ev = (case original_query ev of None \<Rightarrow> False | Some q \<Rightarrow> q \<noteq> [])"

text \<open>
  \<open>generate_detailed_response\<close>. \<open>detail\<close> is the outcome of the handler's model call.
  The text that the order handler returns is sliced for the log and stored in a field
  declared \<open>str\<close>: a value that is not a \<open>str\<close> raises, and the exception leaves the step.
\<close>

definition generate_detailed_response ::
  "(string \<Rightarrow> json option) \<Rightarrow> ResponseEvent \<Rightarrow> llm_result \<Rightarrow> error + ResponseEvent" where
  "generate_detailed_response json_loads ev detail =
     (if action_type ev = ''menu_inquiry_pending'' then
        (if has_query ev then
           Inr \<lparr>response = handle_menu_query detail, action_type = ''menu_inquiry'',
                original_query = None, cart_items = None\<rparr>
         else
           Inr \<lparr>response = ''Error: Missing query for menu info.'', action_type = ''error'',
                original_query = None, cart_items = None\<rparr>)
      else if action_type ev = ''order_action_pending'' then
        (if has_query ev then
           (case handle_order_query json_loads detail of
              (JStr response_text, items) \<Rightarrow>
                Inr \<lparr>response = response_text, action_type = ''order_action'',
                     original_query = None, cart_items = Some items\<rparr>
            | (other, items) \<Rightarrow> Inl PythonError)
         else
           Inr \<lparr>response = ''Error: Missing query for order action.'', action_type = ''error'',
                original_query = None, cart_items = None\<rparr>)
      else
        Inr \<lparr>response = response ev, action_type = action_type ev,
             original_query = original_query ev, cart_items = None\<rparr>)"

text \<open>The action type of what a step returns.\<close>

definition result_kind :: "step_result \<Rightarrow> string" where
  "result_kind r = (case r of Respond ev \<Rightarrow> action_type ev | Stop s \<Rightarrow> stop_action_type s)"

definition finalize :: "ResponseEvent \<Rightarrow> ChatResponseStopEvent" where
  "finalize ev =
     \<lparr>stop_response = response ev, stop_action_type = action_type ev,
      stop_cart_items = cart_items ev\<rparr>"

text \<open>
  The events of one run, whatever the order in which the framework delivers them: a
  \<open>ResponseEvent\<close> is emitted by \<open>classify_and_respond\<close> or by \<open>generate_detailed_response\<close>
  on an emitted event; a final record is the stop event that \<open>classify_and_respond\<close>
  returns, or \<open>finalize\<close> of an emitted event.
\<close>

inductive emitted :: "(string \<Rightarrow> json option) \<Rightarrow> ResponseEvent \<Rightarrow> bool"
  for json_loads :: "string \<Rightarrow> json option" where
  emitted_first:
    "classify_and_respond json_loads query router farewell = Inr (Respond ev)
     \<Longrightarrow> emitted json_loads ev"
| emitted_detail:
    "emitted json_loads ev \<Longrightarrow> generate_detailed_response json_loads ev detail = Inr ev'
     \<Longrightarrow> emitted json_loads ev'"

inductive final_record :: "(string \<Rightarrow> json option) \<Rightarrow> ChatResponseStopEvent \<Rightarrow> bool"
  for json_loads :: "string \<Rightarrow> json option" where
  final_direct:
    "classify_and_respond json_loads query router farewell = Inr (Stop s)
     \<Longrightarrow> final_record json_loads s"
| final_finalize:
    "emitted json_loads ev \<Longrightarrow> final_record json_loads (finalize ev)"

section \<open>app.py: running the workflow\<close>

text \<open>
  What \<open>workflow.run\<close> gives \<open>process_message\<close>: an exception, the workflow's stop event,
  \<open>None\<close>, a plain \<open>StopEvent\<close> (with \<open>str(result.result)\<close> when that result is truthy),
  or a value of another type (with the name of the type).
\<close>

datatype run_result =
    RunRaised error
  | RunStopEvent ChatResponseStopEvent
  | RunNone
  | RunPlainStop "string option"
  | RunOther string

text \<open>
  The first stage as the caller sees it: an exception that leaves \<open>classify_and_respond\<close>
  leaves \<open>run\<close>; otherwise the run ends with the first stop event, the one the step
  returns or the one \<open>finalize\<close> makes of the event it emits (for a pending kind, the
  acknowledgement).
\<close>

definition workflow_run ::
  "(string \<Rightarrow> json option) \<Rightarrow> string \<Rightarrow> llm_result \<Rightarrow> llm_result \<Rightarrow> run_result" where
  "workflow_run json_loads query router farewell =
     (case classify_and_respond json_loads query router farewell of
        Inl e \<Rightarrow> RunRaised e
      | Inr (Stop s) \<Rightarrow> RunStopEvent s
      | Inr (Respond ev) \<Rightarrow> RunStopEvent (finalize ev))"

definition process_message :: "run_result \<Rightarrow> ChatResponseStopEvent" where
  "process_message result =
     (case result of
        RunRaised e \<Rightarrow>
          \<lparr>stop_response = ''I'm sorry, I encountered an error while processing your request. Please try again with different wording.'',
           stop_action_type = ''error'', stop_cart_items = None\<rparr>
      | RunStopEvent s \<Rightarrow> s
      | RunNone \<Rightarrow>
          \<lparr>stop_response = ''I'm sorry, but something went wrong with my processing. The workflow returned no response.'',
           stop_action_type = ''error'', stop_cart_items = None\<rparr>
      | RunPlainStop res \<Rightarrow>
          \<lparr>stop_response =
             (case res of Some t \<Rightarrow> t | None \<Rightarrow> ''No response available from StopEvent''),
           stop_action_type = ''unknown'', stop_cart_items = None\<rparr>
      | RunOther result_type \<Rightarrow>
          \<lparr>stop_response = ''Got unexpected result type: '' @ result_type,
           stop_action_type = ''error'', stop_cart_items = None\<rparr>)"

section \<open>app.py: cleaning the response text\<close>

text \<open>
  The characters that \<open>[^a-zA-Z0-9\s.,!?$:()\-\+\*\\/\\\\]\<close> does not match, which the
  substitution keeps: letters, digits, whitespace and \<open>. , ! ? $ : ( ) - + * / \\<close>.
\<close>

definition allowed_char :: "char \<Rightarrow> bool" where
  "allowed_char c =
     ((97 \<le> code c \<and> code c \<le> 122) \<or> (65 \<le> code c \<and> code c \<le> 90)
      \<or> (48 \<le> code c \<and> code c \<le> 57) \<or> isspace c
      \<or> c \<in> set ''.,!?$:()-+*/'' \<or> c = CHR 0x5C)"

text \<open>
  \<open>re.sub(r'(?<!\s)(\*\*)', r' \1', s)\<close>: from left to right, a pair of asterisks that
  does not follow a whitespace character gets a space in front, and the scan resumes
  after the pair. \<open>ws\<close> tells whether the character before the position is whitespace
  (at the start of the text there is none).
\<close>

fun sub_bold_before :: "bool \<Rightarrow> string \<Rightarrow> string" where
  "sub_bold_before ws (c # d # cs) =
     (if c = CHR ''*'' \<and> d = CHR ''*'' \<and> \<not> ws
      then CHR '' '' # CHR ''*'' # CHR ''*'' # sub_bold_before False cs
      else c # sub_bold_before (isspace c) (d # cs))"
| "sub_bold_before ws cs = cs"

text \<open>
  \<open>re.sub(r'(\*\*)(?!\s)', r'\1 ', s)\<close>: a pair of asterisks that is not followed by a
  whitespace character (also at the end of the text) gets a space behind.
\<close>

fun sub_bold_after :: "string \<Rightarrow> string" where
  "sub_bold_after (c # d # cs) =
     (if c = CHR ''*'' \<and> d = CHR ''*'' \<and> (case cs of [] \<Rightarrow> True | e # es \<Rightarrow> \<not> isspace e)
      then CHR ''*'' # CHR ''*'' # CHR '' '' # sub_bold_after cs
      else c # sub_bold_after (d # cs))"
| "sub_bold_after cs = cs"

text \<open>\<open>clean_response_text\<close> on a \<open>str\<close> (both of its calls pass one).\<close>

definition clean_response_text :: "string \<Rightarrow> string" where
  "clean_response_text text =
     strip (sub_bold_after (sub_bold_before False
       (filter allowed_char (join_space (split text)))))"

section \<open>app.py: handling a submission\<close>

definition fragments :: "string list" where
  "fragments = [''{'', ''}'', ''[]'', ''['', '']'', ''{}'']"

text \<open>
  Stage one, validation and cleaning: the text displayed and the action type logged for
  the record that \<open>process_message\<close> returned.
\<close>

definition stage1_validate :: "ChatResponseStopEvent \<Rightarrow> string \<times> string" where
  "stage1_validate response_event =
     (if strip (stop_response response_event) = [] then
        (''I'm sorry, I didn't generate a proper initial response. Please try again.'', ''error'')
      else
        (let cleaned = clean_response_text (stop_response response_event)
         in if cleaned = [] \<or> strip cleaned \<in> set fragments then
              (''I'm sorry, I didn't generate a proper initial response. Please try again.'',
               ''error'')
            else (cleaned, stop_action_type response_event)))"

text \<open>The session: the messages, the action log and the cart (timings are left out).\<close>

record session_state =
  messages :: "message list"
  actions :: "string list"
  current_cart :: "json list"

text \<open>\<open>str(n)\<close> for a length.\<close>

function str_of_nat :: "nat \<Rightarrow> string" where
  "str_of_nat n =
     (if n < 10 then [char_of (48 + n)]
      else str_of_nat (n div 10) @ [char_of (48 + n mod 10)])"
  by pat_completeness auto
termination
  by (relation "measure id") auto

definition cart_log :: "json list \<Rightarrow> string" where
  "cart_log items =
     (if items = [] then ''Cart: Order canceled/emptied''
      else ''Cart: Updated with '' @ str_of_nat (length items) @ '' items'')"

text \<open>
  Stage one, the session after the display: the message and the action are appended, and
  a cart that is not \<open>None\<close> replaces the session's cart.
\<close>

definition stage1_update :: "ChatResponseStopEvent \<Rightarrow> session_state \<Rightarrow> session_state" where
  "stage1_update response_event st =
     (let (text, kind) = stage1_validate response_event;
          st1 = st\<lparr>messages := messages st @ [(''assistant'', text)],
                   actions := actions st @ [''Action: '' @ kind]\<rparr>
      in case stop_cart_items response_event of
           None \<Rightarrow> st1
         | Some items \<Rightarrow>
             (if kind = ''order_action''
              then st1\<lparr>current_cart := items, actions := actions st1 @ [cart_log items]\<rparr>
              else st1\<lparr>current_cart := items\<rparr>))"

text \<open>
  Stage two, the handler call: the content returned, the final action type and
  \<open>stage2_cart_items\<close>.
\<close>

definition stage2_call ::
  "(string \<Rightarrow> json option) \<Rightarrow> string \<Rightarrow> llm_result \<Rightarrow> json \<times> string \<times> json list option" where
  "stage2_call json_loads kind detail =
     (if kind = ''menu_inquiry_pending'' then
        (JStr (handle_menu_query detail), ''menu_inquiry'', None)
      else if kind = ''order_action_pending'' then
        (case handle_order_query json_loads detail of
           (v, items) \<Rightarrow> (v, ''order_action'', Some items))
      else (JStr [], ''error'', None))"

definition ends_with :: "string \<Rightarrow> string \<Rightarrow> bool" where
  "ends_with s p = starts_with (rev s) (rev p)"

text \<open>
  A \<open>str\<close> that looks like a JSON object is decoded, and a dict with the key
  \<open>'response'\<close> is replaced by the value under it; anything else stays.
\<close>

definition unwrap_json :: "(string \<Rightarrow> json option) \<Rightarrow> json \<Rightarrow> json" where
  "unwrap_json json_loads v =
     (case v of
        JStr s \<Rightarrow>
          (if starts_with (strip s) ''{'' \<and> ends_with (strip s) ''}'' then
             (case json_loads s of
                Some (JObj data) \<Rightarrow> (case map_of data ''response'' of Some r \<Rightarrow> r | None \<Rightarrow> v)
              | _ \<Rightarrow> v)
           else v)
      | _ \<Rightarrow> v)"

text \<open>
  The check before cleaning. A falsy value, or a \<open>str\<close> that is a fragment, gives the
  canned message; a truthy value that is not a \<open>str\<close> has no \<open>strip\<close>, and the \<open>except\<close>
  clause of stage two sets its own message. Both set the action type to error.
\<close>

definition validate_details :: "json \<Rightarrow> string \<Rightarrow> string \<times> string" where
  "validate_details v final =
     (if \<not> truthy v then (''I'm sorry, I didn't receive valid details.'', ''error'')
      else
        (case v of
           JStr s \<Rightarrow>
             (if strip s \<in> set fragments
              then (''I'm sorry, I didn't receive valid details.'', ''error'')
              else (s, final))
         | _ \<Rightarrow> (''Sorry, I encountered an error while getting the details.'', ''error'')))"

text \<open>The cleaning of the detailed response, and the check after it.\<close>

definition clean_details :: "string \<times> string \<Rightarrow> string \<times> string" where
  "clean_details p =
     (let cleaned = clean_response_text (fst p)
      in if cleaned = [] \<or> strip cleaned \<in> set fragments
         then (''I'm sorry, I didn't receive valid details.'', ''error'')
         else (cleaned, snd p))"

text \<open>
  Stage two for a pending action type, at the end of its \<open>try\<close> block: the content and
  the action type after the check before cleaning, and \<open>stage2_cart_items\<close>.
\<close>

definition stage2_try ::
  "(string \<Rightarrow> json option) \<Rightarrow> string \<Rightarrow> llm_result \<Rightarrow> (string \<times> string) \<times> json list option" where
  "stage2_try json_loads kind detail =
     (case stage2_call json_loads kind detail of
        (v, final, cart) \<Rightarrow> (validate_details (unwrap_json json_loads v) final, cart))"

text \<open>
  Stage two as a whole: the text displayed, the final action type logged and
  \<open>stage2_cart_items\<close>.
\<close>

definition stage2_details ::
  "(string \<Rightarrow> json option) \<Rightarrow> string \<Rightarrow> llm_result \<Rightarrow> string \<times> string \<times> json list option" where
  "stage2_details json_loads kind detail =
     (case stage2_try json_loads kind detail of
        (p, cart) \<Rightarrow> (case clean_details p of (text, final) \<Rightarrow> (text, final, cart)))"

definition stage2_update ::
  "(string \<Rightarrow> json option) \<Rightarrow> string \<Rightarrow> llm_result \<Rightarrow> session_state \<Rightarrow> session_state" where
  "stage2_update json_loads kind detail st =
     (case stage2_details json_loads kind detail of
        (text, final, cart) \<Rightarrow>
          (let st1 = (case cart of
                        None \<Rightarrow> st
                      | Some items \<Rightarrow>
                          st\<lparr>current_cart := items, actions := actions st @ [cart_log items]\<rparr>)
           in st1\<lparr>messages := messages st1 @ [(''assistant'', text)],
                  actions := actions st1 @ [''Action: '' @ final]\<rparr>))"

text \<open>
  \<open>handle_chat_submission\<close>: the session after one submitted prompt, given the outcomes
  of the model calls it may make (the classification, the farewell, the detail). The
  workflow is constructed by \<open>create_chat_engine\<close> from the messages before the prompt;
  that history enters the model calls only, whose outcomes are arguments here.
\<close>

definition handle_chat_submission ::
  "(string \<Rightarrow> json option) \<Rightarrow> string \<Rightarrow> llm_result \<Rightarrow> llm_result \<Rightarrow> llm_result
     \<Rightarrow> session_state \<Rightarrow> session_state" where
  "handle_chat_submission json_loads prompt router farewell detail st =
     (let st0 = st\<lparr>messages := messages st @ [(''user'', prompt)],
                   actions := actions st @ [''User said: '' @ prompt]\<rparr>;
          response_event = process_message (workflow_run json_loads prompt router farewell);
          kind = snd (stage1_validate response_event);
          st1 = stage1_update response_event st0
      in if kind \<in> set [''menu_inquiry_pending'', ''order_action_pending'']
         then stage2_update json_loads kind detail st1
         else st1)"

section \<open>Shapes of cleaned text\<close>

text \<open>Predicates on strings for the proofs about \<open>clean_response_text\<close>.\<close>

text \<open>
  \<open>spaced p s\<close>: every whitespace character of \<open>s\<close> is a space that does not follow a
  whitespace character; \<open>p\<close> tells whether the character before \<open>s\<close> is whitespace.
\<close>

fun spaced :: "bool \<Rightarrow> string \<Rightarrow> bool" where
  "spaced p [] = True"
| "spaced p (c # cs) = ((isspace c \<longrightarrow> c = CHR '' '' \<and> \<not> p) \<and> spaced (isspace c) cs)"

text \<open>\<open>no_space_end s\<close>: \<open>s\<close> does not end with a whitespace character.\<close>

definition no_space_end :: "string \<Rightarrow> bool" where
  "no_space_end s = (s = [] \<or> \<not> isspace (last s))"

text \<open>
  \<open>bold_led ws s\<close>: every pair of asterisks in \<open>s\<close> follows a whitespace character; \<open>ws\<close>
  tells whether the character before \<open>s\<close> is whitespace.
\<close>

fun bold_led :: "bool \<Rightarrow> string \<Rightarrow> bool" where
  "bold_led ws (c # d # cs) =
     ((c = CHR ''*'' \<and> d = CHR ''*'' \<longrightarrow> ws) \<and> bold_led (isspace c) (d # cs))"
| "bold_led ws cs = True"

text \<open>
  \<open>bold_run ok s\<close>: every pair of asterisks in \<open>s\<close> follows a whitespace character or an
  asterisk; \<open>ok\<close> tells whether the character before \<open>s\<close> is one of these.
\<close>

fun bold_run :: "bool \<Rightarrow> string \<Rightarrow> bool" where
  "bold_run ok (c # d # cs) =
     ((c = CHR ''*'' \<and> d = CHR ''*'' \<longrightarrow> ok) \<and> bold_run (isspace c \<or> c = CHR ''*'') (d # cs))"
| "bold_run ok cs = True"

text \<open>
  \<open>bold_closed e s\<close>: every pair of asterisks in \<open>s\<close> is followed by a whitespace
  character; \<open>e\<close> tells whether a pair at the end of \<open>s\<close> counts as followed by one.
\<close>

fun bold_closed :: "bool \<Rightarrow> string \<Rightarrow> bool" where
  "bold_closed e (c # d # cs) =
     ((c = CHR ''*'' \<and> d = CHR ''*'' \<longrightarrow> (case cs of [] \<Rightarrow> e | x # xs \<Rightarrow> isspace x))
      \<and> bold_closed e (d # cs))"
| "bold_closed e cs = True"

text \<open>
  \<open>open_pair c d cs\<close>: the condition under which \<open>sub_bold_after\<close> puts a space behind the
  pair \<open>c d\<close> that stands before \<open>cs\<close>.
\<close>

definition open_pair :: "char \<Rightarrow> char \<Rightarrow> string \<Rightarrow> bool" where
  "open_pair c d cs =
     (c = CHR ''*'' \<and> d = CHR ''*'' \<and> (case cs of [] \<Rightarrow> True | e # es \<Rightarrow> \<not> isspace e))"

section \<open>Decoded texts of the concrete runs\<close>

text \<open>
  The concrete runs below decode a handful of texts. \<open>sample_loads\<close> gives for each of
  them the value \<open>json.loads\<close> returns; every other text that these runs hand to the
  decoder is prose, which \<open>json.loads\<close> rejects.
\<close>

definition sample_loads :: "string \<Rightarrow> json option" where
  "sample_loads =
     map_of
       [(''{}'', JObj []),
        (''{\"intent\": \"Greeting\", \"response\": \"{}\"}'',
         JObj [(''intent'', JStr ''Greeting''), (''response'', JStr ''{}'')]),
        (''{\"intent\": \"ORDER\", \"response\": \"\"}'',
         JObj [(''intent'', JStr ''ORDER''), (''response'', JStr [])]),
        (''{\"intent\": \"MENU\", \"response\": 5}'',
         JObj [(''intent'', JStr ''MENU''), (''response'', JNum 5)]),
        (''{\"response\": \"Added.\", \"cart\": [{\"item\": \"Burger\", \"quantity\": 1}]}'',
         JObj [(''response'', JStr ''Added.''),
               (''cart'', JArr [JObj [(''item'', JStr ''Burger''), (''quantity'', JNum 1)]])])]"

section \<open>Theorems\<close>

subsection \<open>Strings\<close>

lemma starts_with_prefix: "starts_with s p = prefix p s"
  by (induction s p rule: starts_with.induct) auto

lemma contains_sublist: "contains s sub = sublist sub s"
proof (induction s)
  case Nil
  then show ?case by simp
next
  case (Cons c cs)
  then show ?case
    by (simp add: starts_with_prefix sublist_Cons_right)
qed

lemma contains_append: "contains (p @ e) e"
  by (simp add: contains_sublist)

lemma handle_menu_query_Raises:
  "handle_menu_query (Raises e)
     = ''I'm sorry, I had trouble providing menu information. Error: '' @ e"
  by (simp add: handle_menu_query_def)

lemma handle_end_conversation_Raises:
  "handle_end_conversation (Raises e) = ''I'm sorry, I had trouble saying goodbye. Error: '' @ e"
  by (simp add: handle_end_conversation_def)

lemma handle_order_query_Raises:
  "handle_order_query json_loads (Raises e)
     = (JStr (''I'm sorry, I had trouble with your order. Error: '' @ e), [])"
  by (simp add: handle_order_query_def)

subsection \<open>Failures of the model calls\<close>

text \<open>
  C2, as the code has it. When the model call of the menu, order or farewell handler
  raises, the string returned is the handler's fixed apology followed by \<open>Error:\<close> and
  the text of the exception (for the order handler with the cart \<open>[]\<close>): the exception
  text is part of what the caller receives.
\<close>

theorem handlers_expose_exception_text:
  "handle_menu_query (Raises e)
     = ''I'm sorry, I had trouble providing menu information. Error: '' @ e
   \<and> handle_order_query json_loads (Raises e)
     = (JStr (''I'm sorry, I had trouble with your order. Error: '' @ e), [])
   \<and> handle_end_conversation (Raises e)
     = ''I'm sorry, I had trouble saying goodbye. Error: '' @ e
   \<and> contains (handle_menu_query (Raises e)) e
   \<and> contains (handle_end_conversation (Raises e)) e"
proof -
  have "contains (handle_menu_query (Raises e)) e"
    by (simp only: handle_menu_query_Raises contains_append)
  moreover have "contains (handle_end_conversation (Raises e)) e"
    by (simp only: handle_end_conversation_Raises contains_append)
  ultimately show ?thesis
    by (simp only: handle_menu_query_Raises handle_end_conversation_Raises
        handle_order_query_Raises simp_thms)
qed

text \<open>
  C2 as stated fails: the menu handler's message for an exception contains the
  exception's text, and two exceptions give two messages.
\<close>

theorem menu_failure_message_not_fixed:
  "contains (handle_menu_query (Raises ''Connection refused'')) ''Connection refused''
   \<and> handle_menu_query (Raises ''Connection refused'')
       \<noteq> handle_menu_query (Raises ''Rate limit exceeded'')"
proof -
  have "contains (handle_menu_query (Raises ''Connection refused'')) ''Connection refused''"
    by (simp only: handle_menu_query_Raises contains_append)
  moreover have "handle_menu_query (Raises ''Connection refused'')
       \<noteq> handle_menu_query (Raises ''Rate limit exceeded'')"
    by (simp add: handle_menu_query_Raises)
  ultimately show ?thesis by simp
qed

text \<open>
  C7. An exception of the classification call leaves \<open>classify_and_respond\<close> uncaught
  and leaves the run; \<open>process_message\<close> turns every exception of the run into a record
  with the action type error, a fixed apology and no cart.
\<close>

theorem classification_failure_gives_error_record:
  "classify_and_respond json_loads query (Raises e) farewell = Inl (ModelError e)
   \<and> workflow_run json_loads query (Raises e) farewell = RunRaised (ModelError e)
   \<and> process_message (RunRaised x)
       = \<lparr>stop_response = ''I'm sorry, I encountered an error while processing your request. Please try again with different wording.'',
          stop_action_type = ''error'', stop_cart_items = None\<rparr>
   \<and> stop_action_type (process_message (workflow_run json_loads query (Raises e) farewell))
       = ''error''"
  by (simp add: classify_and_respond_def workflow_run_def process_message_def)

subsection \<open>Classification\<close>

lemma keyword_fallback_str: "\<exists>s. snd (keyword_fallback t) = JStr s"
  by (simp add: keyword_fallback_def Let_def)

lemma keyword_fallback_valid: "fst (keyword_fallback t) \<in> set valid_intents"
  by (simp add: keyword_fallback_def Let_def valid_intents_def)

lemma repair_response_str: "\<exists>s. repair_response intent d = JStr s"
  by (simp add: repair_response_def split: json.split)

lemma parse_router_valid:
  assumes "parse_router json_loads t = Inr (intent, direct)"
  shows "intent \<in> set valid_intents"
    and "intent \<in> set [''greeting'', ''irrelevant'', ''history''] \<Longrightarrow> \<exists>s. direct = JStr s"
proof -
  show "intent \<in> set valid_intents"
  proof (cases "json_loads t")
    case None
    with assms keyword_fallback_valid [of t] show ?thesis
      by (auto simp: parse_router_def)
  next
    case (Some v)
    with assms show ?thesis
      by (cases v)
        (auto simp: parse_router_def Let_def valid_intents_def split: sum.splits if_splits)
  qed
  show "\<exists>s. direct = JStr s" if g: "intent \<in> set [''greeting'', ''irrelevant'', ''history'']"
  proof (cases "json_loads t")
    case None
    with assms keyword_fallback_str [of t] show ?thesis
      by (auto simp: parse_router_def)
  next
    case (Some v)
    show ?thesis
    proof (cases v)
      case (JObj data)
      with Some assms g repair_response_str show ?thesis
        by (auto simp: parse_router_def Let_def split: sum.splits if_splits)
    qed (use Some assms in \<open>auto simp: parse_router_def\<close>)
  qed
qed


lemma valid_intents_cases:
  "intent \<in> set valid_intents \<Longrightarrow>
     intent = ''menu'' \<or> intent = ''order'' \<or> intent = ''greeting'' \<or> intent = ''end''
     \<or> intent = ''irrelevant'' \<or> intent = ''history''"
  by (simp add: valid_intents_def)

lemma dispatch_kind_str:
  "intent \<in> set valid_intents \<Longrightarrow>
   result_kind (dispatch query intent (JStr s) farewell) =
     (if intent = ''menu'' then ''menu_inquiry_pending''
      else if intent = ''order'' then ''order_action_pending''
      else if intent = ''greeting'' then ''greeting''
      else if intent = ''end'' then ''end_conversation''
      else if intent = ''history'' then ''history_query''
      else ''irrelevant_query'')"
  by (drule valid_intents_cases, elim disjE)
    (simp_all add: dispatch_def result_kind_def direct_stop_def)

lemma dispatch_kind_pending:
  "intent = ''menu'' \<or> intent = ''order'' \<or> intent = ''end'' \<Longrightarrow>
   result_kind (dispatch query intent direct farewell) =
     (if intent = ''menu'' then ''menu_inquiry_pending''
      else if intent = ''order'' then ''order_action_pending''
      else ''end_conversation'')"
  by (elim disjE) (simp_all add: dispatch_def result_kind_def)


text \<open>
  C6. When the router's reply does not decode, parsing returns (it does not raise) the
  result of the keyword scan of the lowercased text: menu if it contains \<open>menu\<close>; else
  order if it contains \<open>order\<close>, \<open>cart\<close> or \<open>checkout\<close>; else greeting with the canned greeting
  if it contains \<open>hello\<close>, \<open>hi\<close> followed by a space, or \<open>how are\<close> after a space; else end if
  it contains \<open>bye\<close>, \<open>thank you\<close> or \<open>thanks\<close>; else irrelevant with the canned apology.
\<close>

theorem keyword_fallback_cascade:
  assumes "json_loads t = None"
  shows "\<exists>intent direct.
     parse_router json_loads t = Inr (intent, direct) \<and>
     (if contains (lower t) ''menu'' then intent = ''menu''
      else if contains (lower t) ''order'' \<or> contains (lower t) ''cart''
              \<or> contains (lower t) ''checkout'' then intent = ''order''
      else if contains (lower t) ''hello'' \<or> contains (lower t) ''hi ''
              \<or> contains (lower t) '' how are'' then
        intent = ''greeting''
        \<and> direct = JStr ''Hello! How can I help you with the menu or your order today?''
      else if contains (lower t) ''bye'' \<or> contains (lower t) ''thank you''
              \<or> contains (lower t) ''thanks'' then intent = ''end''
      else
        intent = ''irrelevant''
        \<and> direct = JStr ''I'm sorry, I had trouble understanding that. I can only assist with menu questions and food orders.'')"
  using assms by (simp add: parse_router_def keyword_fallback_def Let_def)


text \<open>A reply that does not decode and holds a farewell token only.\<close>

theorem keyword_fallback_cascade_witness:
  "sample_loads ''Sure, thanks for asking!'' = None
   \<and> (\<exists>direct. parse_router sample_loads ''Sure, thanks for asking!'' = Inr (''end'', direct))"
proof -
  have h: "sample_loads ''Sure, thanks for asking!'' = None"
    by (simp add: sample_loads_def)
  have l: "lower ''Sure, thanks for asking!'' = ''sure, thanks for asking!''"
    by code_simp
  from keyword_fallback_cascade [of sample_loads "''Sure, thanks for asking!''", OF h] have
    "\<exists>direct. parse_router sample_loads ''Sure, thanks for asking!'' = Inr (''end'', direct)"
    unfolding l by simp
  with h show ?thesis by simp
qed

text \<open>A decoded reply whose response is a number: the log line's \<open>len\<close> raises.\<close>

lemma parse_router_raises:
  "parse_router sample_loads ''{\"intent\": \"MENU\", \"response\": 5}'' = Inl PythonError"
  by code_simp

text \<open>The action type of the first stage, for each intent that parsing can return.\<close>

lemma first_stage_kind:
  assumes "parse_router json_loads t = Inr (intent, direct)"
  shows "result_kind (dispatch query intent direct farewell) =
     (if intent = ''greeting'' then ''greeting''
      else if intent = ''history'' then ''history_query''
      else if intent = ''end'' then ''end_conversation''
      else if intent = ''irrelevant'' then ''irrelevant_query''
      else if intent = ''menu'' then ''menu_inquiry_pending''
      else ''order_action_pending'')"
proof -
  note v = parse_router_valid [OF assms]
  from valid_intents_cases [OF v(1)] show ?thesis
  proof (elim disjE)
    assume i: "intent = ''greeting''"
    with v(2) obtain s where "direct = JStr s" by auto
    with i show ?thesis by (simp add: dispatch_kind_str valid_intents_def)
  next
    assume i: "intent = ''irrelevant''"
    with v(2) obtain s where "direct = JStr s" by auto
    with i show ?thesis by (simp add: dispatch_kind_str valid_intents_def)
  next
    assume i: "intent = ''history''"
    with v(2) obtain s where "direct = JStr s" by auto
    with i show ?thesis by (simp add: dispatch_kind_str valid_intents_def)
  qed (simp_all add: dispatch_kind_pending)
qed

text \<open>
  C10. Whenever the parsing and repair of the router's reply returns, on the JSON path as
  on the keyword path, the intent is one of the six valid strings, and the dispatch on it
  does not produce the action type error: neither its final \<open>else\<close> branch nor its
  \<open>except\<close> clause is taken.
\<close>

theorem classified_intent_valid:
  assumes "parse_router json_loads t = Inr (intent, direct)"
  shows "intent \<in> set valid_intents
         \<and> result_kind (dispatch query intent direct farewell) \<noteq> ''error''"
proof -
  have "result_kind (dispatch query intent direct farewell) \<noteq> ''error''"
    by (simp only: first_stage_kind [OF assms]) simp
  with parse_router_valid(1) [OF assms] show ?thesis by simp
qed

text \<open>A decoded reply with a mixed-case intent and a fragment as response.\<close>

theorem classified_intent_valid_witness:
  "parse_router sample_loads ''{\"intent\": \"Greeting\", \"response\": \"{}\"}''
     = Inr (''greeting'', JStr ''Hello! How can I help with the menu or your order?'')
   \<and> ''greeting'' \<in> set valid_intents
   \<and> result_kind (dispatch ''hi'' ''greeting''
         (JStr ''Hello! How can I help with the menu or your order?'') (Reply [])) \<noteq> ''error''"
proof -
  have p: "parse_router sample_loads ''{\"intent\": \"Greeting\", \"response\": \"{}\"}''
     = Inr (''greeting'', JStr ''Hello! How can I help with the menu or your order?'')"
    by code_simp
  from classified_intent_valid [OF p, of "''hi''" "Reply []"] p show ?thesis
    by simp
qed

subsection \<open>The cart of a final record\<close>

lemma emitted_cart:
  "emitted json_loads ev \<Longrightarrow> cart_items ev \<noteq> None \<Longrightarrow> action_type ev = ''order_action''"
proof (induction rule: emitted.induct)
  case (emitted_first query router farewell ev)
  then show ?case
    by (auto simp: classify_and_respond_def dispatch_def direct_stop_def
        split: llm_result.splits sum.splits if_splits json.splits)
next
  case (emitted_detail ev detail ev')
  from emitted_detail.hyps(2) emitted_detail.prems show ?case
    by (auto simp: generate_detailed_response_def
        split: if_splits prod.splits json.splits)
qed

lemma classify_stop_cart:
  "classify_and_respond json_loads query router farewell = Inr (Stop s)
   \<Longrightarrow> stop_cart_items s = None"
  by (auto simp: classify_and_respond_def dispatch_def direct_stop_def error_stop_event_def
      split: llm_result.splits sum.splits if_splits json.splits)

text \<open>
  C9. Every final record of the workflow that carries a cart has the action type
  \<open>order_action\<close>; a record of any other action type carries no cart.
\<close>

theorem final_record_cart_invariant:
  assumes "final_record json_loads s"
  shows "(stop_cart_items s \<noteq> None \<longrightarrow> stop_action_type s = ''order_action'')
         \<and> (stop_action_type s \<noteq> ''order_action'' \<longrightarrow> stop_cart_items s = None)"
  using assms
proof cases
  case (final_direct query router farewell)
  then show ?thesis by (simp add: classify_stop_cart)
next
  case (final_finalize ev)
  from emitted_cart [OF final_finalize(2)]
  have "cart_items ev \<noteq> None \<longrightarrow> action_type ev = ''order_action''"
    by blast
  with final_finalize(1) show ?thesis
    by (auto simp: finalize_def)
qed

text \<open>An order run: classification, the order handler's reply with a cart, finalization.\<close>

theorem final_record_cart_invariant_witness:
  "final_record sample_loads
     \<lparr>stop_response = ''Added.'', stop_action_type = ''order_action'',
      stop_cart_items = Some [JObj [(''item'', JStr ''Burger''), (''quantity'', JNum 1)]]\<rparr>
   \<and> Some [JObj [(''item'', JStr ''Burger''), (''quantity'', JNum 1)]] \<noteq> None
   \<and> stop_action_type
        \<lparr>stop_response = ''Added.'', stop_action_type = ''order_action'',
         stop_cart_items = Some [JObj [(''item'', JStr ''Burger''), (''quantity'', JNum 1)]]\<rparr>
       = ''order_action''"
proof -
  let ?ack = "\<lparr>response = ''Give us a moment while we get that order modification ready for you.'',
      action_type = ''order_action_pending'', original_query = Some ''add a burger'',
      cart_items = None\<rparr>"
  let ?done = "\<lparr>response = ''Added.'', action_type = ''order_action'', original_query = None,
      cart_items = Some [JObj [(''item'', JStr ''Burger''), (''quantity'', JNum 1)]]\<rparr>"
  have "classify_and_respond sample_loads ''add a burger''
          (Reply ''{\"intent\": \"ORDER\", \"response\": \"\"}'') (Reply []) = Inr (Respond ?ack)"
    by code_simp
  then have e: "emitted sample_loads ?ack"
    by (rule emitted_first)
  have "generate_detailed_response sample_loads ?ack
          (Reply ''Sure! {\"response\": \"Added.\", \"cart\": [{\"item\": \"Burger\", \"quantity\": 1}]}'')
        = Inr ?done"
    by code_simp
  with e have "emitted sample_loads ?done"
    by (rule emitted_detail)
  then have "final_record sample_loads (finalize ?done)"
    by (rule final_finalize)
  then have f: "final_record sample_loads
     \<lparr>stop_response = ''Added.'', stop_action_type = ''order_action'',
      stop_cart_items = Some [JObj [(''item'', JStr ''Burger''), (''quantity'', JNum 1)]]\<rparr>"
    by (simp add: finalize_def)
  from final_record_cart_invariant [OF f] f show ?thesis
    by simp
qed


subsection \<open>The cleaned text\<close>

lemma isspace_space [simp]: "isspace (CHR '' '')"
  by (simp add: isspace_def code_def)

lemma allowed_space [simp]: "allowed_char (CHR '' '')"
  by (simp add: allowed_char_def)

lemma set_strip: "set (strip s) \<subseteq> set s"
  by (auto simp: strip_def lstrip_def rstrip_def dest!: set_dropWhileD)

lemma set_sub_bold_before: "set (sub_bold_before ws s) \<subseteq> insert (CHR '' '') (set s)"
  by (induction ws s rule: sub_bold_before.induct) auto

lemma set_sub_bold_after: "set (sub_bold_after s) \<subseteq> insert (CHR '' '') (set s)"
  by (induction s rule: sub_bold_after.induct) auto

lemma clean_allowed: "c \<in> set (clean_response_text s) \<Longrightarrow> allowed_char c"
proof -
  let ?f = "filter allowed_char (join_space (split s))"
  assume "c \<in> set (clean_response_text s)"
  then have "c \<in> set (sub_bold_after (sub_bold_before False ?f))"
    using set_strip by (auto simp: clean_response_text_def)
  then have "c = CHR '' '' \<or> c \<in> set (sub_bold_before False ?f)"
    using set_sub_bold_after by fastforce
  then have "c = CHR '' '' \<or> c \<in> set ?f"
    using set_sub_bold_before by fastforce
  then show ?thesis by auto
qed

lemma fragment_not_allowed: "f \<in> set fragments \<Longrightarrow> \<exists>c \<in> set f. \<not> allowed_char c"
  by (auto simp: fragments_def allowed_char_def isspace_def code_def)

lemma clean_strip_not_fragment: "strip (clean_response_text s) \<notin> set fragments"
proof
  assume "strip (clean_response_text s) \<in> set fragments"
  then obtain c where "c \<in> set (strip (clean_response_text s))" "\<not> allowed_char c"
    using fragment_not_allowed by blast
  with set_strip clean_allowed show False by blast
qed

subsection \<open>Cleaning twice\<close>

lemma spaced_weaken: "spaced True s \<Longrightarrow> spaced p s"
  by (cases s) auto

lemma spaced_word: "\<forall>c \<in> set w. \<not> isspace c \<Longrightarrow> spaced p (w @ s) = (if w = [] then spaced p s else spaced False s)"
  by (induction w arbitrary: p) auto

lemma split_acc_words:
  "v \<in> set (split_acc w s) \<Longrightarrow> \<forall>c \<in> set w. \<not> isspace c
   \<Longrightarrow> v \<noteq> [] \<and> (\<forall>c \<in> set v. \<not> isspace c) \<and> set v \<subseteq> set w \<union> set s"
proof (induction w s arbitrary: v rule: split_acc.induct)
  case (1 w)
  then show ?case by (auto split: if_splits)
next
  case (2 w c cs)
  show ?case
  proof (cases "isspace c")
    case True
    show ?thesis
    proof (cases "w = []")
      case w: True
      with True "2.prems"(1) have "v \<in> set (split_acc [] cs)" by simp
      from "2.IH"(1) [OF True w this] show ?thesis by auto
    next
      case w: False
      with True "2.prems"(1) have "v = w \<or> v \<in> set (split_acc [] cs)" by simp
      then show ?thesis
      proof
        assume "v = w"
        with w "2.prems"(2) show ?thesis by auto
      next
        assume "v \<in> set (split_acc [] cs)"
        from "2.IH"(2) [OF True w this] show ?thesis by auto
      qed
    qed
  next
    case False
    with "2.prems"(1) have m: "v \<in> set (split_acc (w @ [c]) cs)" by simp
    from False "2.prems"(2) have "\<forall>x \<in> set (w @ [c]). \<not> isspace x" by simp
    from "2.IH"(3) [OF False m this] show ?thesis by auto
  qed
qed

lemma join_space_normal:
  "\<forall>v \<in> set ws. v \<noteq> [] \<and> (\<forall>c \<in> set v. \<not> isspace c)
   \<Longrightarrow> spaced True (join_space ws) \<and> no_space_end (join_space ws)"
proof (induction ws rule: join_space.induct)
  case 1
  then show ?case by (simp add: no_space_end_def)
next
  case (2 w)
  then show ?case
    using spaced_word [of w True "[]"] by (auto simp: no_space_end_def)
next
  case (3 w v ws)
  then have ih: "spaced True (join_space (v # ws))" "no_space_end (join_space (v # ws))"
    by auto
  from 3 have w: "w \<noteq> []" "\<forall>c \<in> set w. \<not> isspace c" by auto
  from 3 have "v \<noteq> []" by auto
  then have ne: "join_space (v # ws) \<noteq> []" by (cases ws) auto
  from w ih(1) have "spaced True (w @ CHR '' '' # join_space (v # ws))"
    by (simp add: spaced_word spaced_weaken)
  moreover from ih(2) ne have "no_space_end (w @ CHR '' '' # join_space (v # ws))"
    by (simp add: no_space_end_def)
  ultimately show ?case by simp
qed

lemma set_join_space: "set (join_space ws) \<subseteq> insert (CHR '' '') (\<Union> (set ` set ws))"
  by (induction ws rule: join_space.induct) auto

lemma split_acc_Nil_iff: "split_acc w s = [] \<longleftrightarrow> w = [] \<and> (\<forall>c \<in> set s. isspace c)"
  by (induction w s rule: split_acc.induct) auto

lemma join_split_acc:
  "spaced (w = []) s \<Longrightarrow> no_space_end s \<Longrightarrow> join_space (split_acc w s) = w @ s"
proof (induction w s rule: split_acc.induct)
  case (1 w)
  then show ?case by simp
next
  case (2 w c cs)
  show ?case
  proof (cases "isspace c")
    case True
    with "2.prems" have c: "c = CHR '' ''" and w: "w \<noteq> []" and sp: "spaced True cs"
      by auto
    from "2.prems" True have ne: "cs \<noteq> []" and nse: "no_space_end cs"
      by (auto simp: no_space_end_def split: if_splits)
    from sp ne have "\<not> isspace (hd cs)" by (cases cs) auto
    with ne have "split_acc [] cs \<noteq> []"
      by (cases cs) (auto simp: split_acc_Nil_iff)
    then obtain v vs where vs: "split_acc [] cs = v # vs"
      by (cases "split_acc [] cs") auto
    from "2.IH"(2) [OF True w] sp nse have "join_space (split_acc [] cs) = cs"
      by simp
    with vs True w c show ?thesis by simp
  next
    case False
    with "2.prems" have "spaced False cs" "no_space_end cs"
      by (auto simp: no_space_end_def split: if_splits)
    with "2.IH"(3) [OF False] False show ?thesis by simp
  qed
qed

lemma join_split_normal: "spaced True s \<Longrightarrow> no_space_end s \<Longrightarrow> join_space (split s) = s"
  using join_split_acc [of "[]" s] by (simp add: split_def)

lemma not_isspace_star [simp]: "\<not> isspace (CHR ''*'')"
  by (simp add: isspace_def code_def)

lemma sub_bold_after_Cons: "\<exists>es. sub_bold_after (c # cs) = c # es"
  by (cases cs) auto

lemma sub_bold_before_led: "bold_led ws s \<Longrightarrow> sub_bold_before ws s = s"
  by (induction ws s rule: sub_bold_before.induct) auto

lemma sub_bold_before_Cons:
  "\<exists>e es. sub_bold_before ws (d # cs) = e # es \<and> (e = d \<or> (e = CHR '' '' \<and> d = CHR ''*''))"
  by (cases cs) auto

lemma sub_bold_before_run: "(ws \<longrightarrow> ok) \<Longrightarrow> bold_run ok (sub_bold_before ws s)"
proof (induction ws s arbitrary: ok rule: sub_bold_before.induct)
  case (1 ws c d cs)
  show ?case
  proof (cases "c = CHR ''*'' \<and> d = CHR ''*'' \<and> \<not> ws")
    case True
    have "bold_run True (sub_bold_before False cs)"
      using "1.IH"(1) [OF True, of True] by simp
    then have "bold_run True (CHR ''*'' # sub_bold_before False cs)"
      by (cases "sub_bold_before False cs") auto
    with True show ?thesis by simp
  next
    case False
    obtain e es where e: "sub_bold_before (isspace c) (d # cs) = e # es"
      and first: "e = d \<or> (e = CHR '' '' \<and> d = CHR ''*'')"
      using sub_bold_before_Cons by blast
    have "bold_run (isspace c \<or> c = CHR ''*'') (sub_bold_before (isspace c) (d # cs))"
      using "1.IH"(2) [OF False, of "isspace c \<or> c = CHR ''*''"] by simp
    with e first False "1.prems" show ?thesis by auto
  qed
qed simp_all

lemma sub_bold_after_open:
  "open_pair c d cs \<Longrightarrow>
   sub_bold_after (c # d # cs) = CHR ''*'' # CHR ''*'' # CHR '' '' # sub_bold_after cs"
  by (simp add: open_pair_def)

lemma sub_bold_after_skip:
  "\<not> open_pair c d cs \<Longrightarrow> sub_bold_after (c # d # cs) = c # sub_bold_after (d # cs)"
  by (auto simp: open_pair_def)

lemma sub_bold_after_induct [case_names Open Skip Short]:
  assumes "\<And>c d cs. open_pair c d cs \<Longrightarrow> P cs \<Longrightarrow> P (c # d # cs)"
    and "\<And>c d cs. \<not> open_pair c d cs \<Longrightarrow> P (d # cs) \<Longrightarrow> P (c # d # cs)"
    and "\<And>cs. length cs < 2 \<Longrightarrow> P cs"
  shows "P s"
proof (induction s rule: sub_bold_after.induct)
  case (1 c d cs)
  show ?case
  proof (cases "open_pair c d cs")
    case True
    with "1.IH"(1) assms(1) show ?thesis by (simp add: open_pair_def)
  next
    case False
    with "1.IH"(2) assms(2) show ?thesis by (simp add: open_pair_def)
  qed
qed (simp_all add: assms(3))

declare sub_bold_after.simps(1) [simp del]

lemma bold_closed_space: "bold_closed e s \<Longrightarrow> bold_closed e (CHR '' '' # s)"
  by (cases s) auto

lemma bold_led_space: "bold_led True s \<Longrightarrow> bold_led ws (CHR '' '' # s)"
  by (cases s) auto

lemma sub_bold_after_closed: "bold_closed False (sub_bold_after s)"
proof (induction s rule: sub_bold_after_induct)
  case (Open c d cs)
  from Open.hyps have "sub_bold_after (c # d # cs)
      = CHR ''*'' # CHR ''*'' # CHR '' '' # sub_bold_after cs"
    by (rule sub_bold_after_open)
  with Open.IH show ?case
    by (simp add: bold_closed_space)
next
  case (Skip c d cs)
  from Skip.hyps have step: "sub_bold_after (c # d # cs) = c # sub_bold_after (d # cs)"
    by (rule sub_bold_after_skip)
  obtain fs where f: "sub_bold_after (d # cs) = d # fs"
    using sub_bold_after_Cons by blast
  show ?case
  proof (cases "c = CHR ''*'' \<and> d = CHR ''*''")
    case True
    with Skip.hyps obtain e es where cs: "cs = e # es" "isspace e"
      by (cases cs) (auto simp: open_pair_def)
    then have "\<not> open_pair d e es"
      by (auto simp: open_pair_def)
    then have "sub_bold_after (d # e # es) = d # sub_bold_after (e # es)"
      by (rule sub_bold_after_skip)
    moreover obtain gs where "sub_bold_after (e # es) = e # gs"
      using sub_bold_after_Cons by blast
    ultimately have "sub_bold_after (d # cs) = d # e # gs"
      using cs by simp
    with Skip.IH cs step show ?thesis
      by simp
  next
    case False
    with Skip.IH f step show ?thesis
      by auto
  qed
next
  case (Short cs)
  then show ?case
    by (cases cs; cases "tl cs") auto
qed

lemma sub_bold_after_led: "bold_run ok s \<Longrightarrow> bold_led ok (sub_bold_after s)"
proof (induction s arbitrary: ok rule: sub_bold_after_induct)
  case (Open c d cs)
  from Open.hyps have step: "sub_bold_after (c # d # cs)
      = CHR ''*'' # CHR ''*'' # CHR '' '' # sub_bold_after cs"
    by (rule sub_bold_after_open)
  from Open.prems Open.hyps have "ok" and "bold_run True cs"
    by (auto simp: open_pair_def split: list.splits)
  from Open.IH [OF this(2)] have "bold_led True (sub_bold_after cs)" .
  then have "bold_led False (CHR '' '' # sub_bold_after cs)"
    by (rule bold_led_space)
  with \<open>ok\<close> step show ?case
    by simp
next
  case (Skip c d cs)
  from Skip.hyps have step: "sub_bold_after (c # d # cs) = c # sub_bold_after (d # cs)"
    by (rule sub_bold_after_skip)
  obtain fs where f: "sub_bold_after (d # cs) = d # fs"
    using sub_bold_after_Cons by blast
  from Skip.prems have q: "bold_run (isspace c \<or> c = CHR ''*'') (d # cs)"
    and o: "c = CHR ''*'' \<and> d = CHR ''*'' \<longrightarrow> ok"
    by auto
  have "bold_run (isspace c) (d # cs)"
  proof (cases "c = CHR ''*''")
    case True
    with Skip.hyps q show ?thesis
      by (cases cs) (auto simp: open_pair_def)
  next
    case False
    with q show ?thesis by simp
  qed
  from Skip.IH [OF this] have "bold_led (isspace c) (sub_bold_after (d # cs))" .
  with f o step show ?case
    by auto
next
  case (Short cs)
  then show ?case
    by (cases cs; cases "tl cs") auto
qed

lemma ends_with_Cons:
  "cs \<noteq> [] \<Longrightarrow> ends_with (c # d # cs) [x, y] = ends_with (d # cs) [x, y]"
proof (cases cs rule: rev_cases)
  case (snoc ys z)
  then show ?thesis
    by (cases ys rule: rev_cases) (auto simp: ends_with_def)
qed simp

lemma sub_bold_after_fixed:
  "bold_closed True s \<Longrightarrow>
   sub_bold_after s = s @ (if ends_with s ''**'' then '' '' else [])"
proof (induction s rule: sub_bold_after_induct)
  case (Open c d cs)
  then have "cs = []" by (cases cs) (auto simp: open_pair_def)
  with Open.hyps sub_bold_after_open [OF Open.hyps] show ?case
    by (simp add: ends_with_def open_pair_def)
next
  case (Skip c d cs)
  from Skip.hyps have step: "sub_bold_after (c # d # cs) = c # sub_bold_after (d # cs)"
    by (rule sub_bold_after_skip)
  from Skip.prems have "bold_closed True (d # cs)" by simp
  from Skip.IH [OF this] have
    ih: "sub_bold_after (d # cs) = (d # cs) @ (if ends_with (d # cs) ''**'' then '' '' else [])" .
  have "ends_with (c # d # cs) ''**'' = ends_with (d # cs) ''**''"
  proof (cases "cs = []")
    case True
    with Skip.hyps show ?thesis by (auto simp: ends_with_def open_pair_def)
  next
    case False
    then show ?thesis by (rule ends_with_Cons)
  qed
  with ih step show ?case
    by simp
next
  case (Short cs)
  then show ?case
    by (cases cs; cases "tl cs") (auto simp: ends_with_def)
qed

lemma sub_bold_before_spaced: "spaced ws s \<Longrightarrow> spaced ws (sub_bold_before ws s)"
  by (induction ws s rule: sub_bold_before.induct) (auto split: if_splits)

lemma sub_bold_after_spaced: "spaced p s \<Longrightarrow> spaced p (sub_bold_after s)"
proof (induction s arbitrary: p rule: sub_bold_after_induct)
  case (Open c d cs)
  from Open.hyps have step: "sub_bold_after (c # d # cs)
      = CHR ''*'' # CHR ''*'' # CHR '' '' # sub_bold_after cs"
    by (rule sub_bold_after_open)
  from Open.prems Open.hyps have "spaced False cs" by (simp add: open_pair_def)
  with Open.hyps have "spaced True cs"
    by (cases cs) (auto simp: open_pair_def)
  from Open.IH [OF this] step show ?case
    by simp
next
  case (Skip c d cs)
  from Skip.hyps have step: "sub_bold_after (c # d # cs) = c # sub_bold_after (d # cs)"
    by (rule sub_bold_after_skip)
  from Skip.prems have "spaced (isspace c) (d # cs)" by simp
  from Skip.IH [OF this] Skip.prems step show ?case
    by simp
next
  case (Short cs)
  then show ?case
    by (cases cs; cases "tl cs") auto
qed

lemma spaced_prefix: "spaced p (s @ t) \<Longrightarrow> spaced p s"
  by (induction s arbitrary: p) auto

lemma lstrip_spaced: "spaced p s \<Longrightarrow> spaced True (lstrip s)"
proof (induction s arbitrary: p)
  case Nil
  then show ?case by (simp add: lstrip_def)
next
  case (Cons c cs)
  show ?case
  proof (cases "isspace c")
    case True
    with Cons show ?thesis by (auto simp: lstrip_def)
  next
    case False
    with Cons.prems show ?thesis by (simp add: lstrip_def)
  qed
qed

lemma rstrip_decomp: "\<exists>t. s = rstrip s @ t \<and> (\<forall>c \<in> set t. isspace c)"
proof -
  have "rev s = takeWhile isspace (rev s) @ dropWhile isspace (rev s)"
    by simp
  then have "s = rev (dropWhile isspace (rev s)) @ rev (takeWhile isspace (rev s))"
    by (metis rev_append rev_rev_ident)
  moreover have "\<forall>c \<in> set (rev (takeWhile isspace (rev s))). isspace c"
    by (auto dest: set_takeWhileD)
  ultimately show ?thesis
    unfolding rstrip_def by blast
qed

lemma rstrip_no_space_end: "no_space_end (rstrip s)"
proof (cases "dropWhile isspace (rev s)")
  case Nil
  then show ?thesis by (simp add: no_space_end_def rstrip_def)
next
  case (Cons c cs)
  then have "\<not> isspace c"
    using hd_dropWhile [of isspace "rev s"] by auto
  with Cons show ?thesis by (simp add: no_space_end_def rstrip_def)
qed

lemma strip_normal: "spaced p s \<Longrightarrow> spaced True (strip s) \<and> no_space_end (strip s)"
proof -
  assume "spaced p s"
  then have l: "spaced True (lstrip s)" by (rule lstrip_spaced)
  obtain t where "lstrip s = rstrip (lstrip s) @ t"
    using rstrip_decomp by blast
  with l have "spaced True (rstrip (lstrip s))"
    using spaced_prefix by metis
  then show ?thesis
    by (simp add: strip_def rstrip_no_space_end)
qed

lemma bold_led_weaken: "bold_led ws s \<Longrightarrow> bold_led True s"
  by (cases "(ws, s)" rule: bold_led.cases) auto

lemma bold_led_tail: "bold_led ws (c # cs) \<Longrightarrow> bold_led (isspace c) cs"
  by (cases cs) auto

lemma bold_led_lstrip: "bold_led ws s \<Longrightarrow> bold_led True (lstrip s)"
proof (induction s arbitrary: ws)
  case Nil
  then show ?case by (simp add: lstrip_def)
next
  case (Cons c cs)
  show ?case
  proof (cases "isspace c")
    case True
    from bold_led_tail [OF Cons.prems] True have "bold_led True cs" by simp
    from Cons.IH [OF this] True show ?thesis by (simp add: lstrip_def)
  next
    case False
    with bold_led_weaken [OF Cons.prems] show ?thesis by (simp add: lstrip_def)
  qed
qed

lemma bold_led_prefix: "bold_led ws (s @ t) \<Longrightarrow> bold_led ws s"
proof (induction ws s rule: bold_led.induct)
  case (1 ws c d cs)
  then show ?case by simp
qed simp_all

lemma bold_closed_tail: "bold_closed e (c # cs) \<Longrightarrow> bold_closed e cs"
  by (cases cs) auto

lemma bold_closed_lstrip: "bold_closed e s \<Longrightarrow> bold_closed e (lstrip s)"
proof (induction s)
  case Nil
  then show ?case by (simp add: lstrip_def)
next
  case (Cons c cs)
  from Cons.IH [OF bold_closed_tail [OF Cons.prems]] Cons.prems show ?case
    by (simp add: lstrip_def)
qed

lemma bold_closed_prefix: "bold_closed e (s @ t) \<Longrightarrow> bold_closed True s"
proof (induction e s rule: bold_closed.induct)
  case (1 e c d cs)
  then show ?case by (cases cs) auto
qed simp_all

lemma strip_led_closed:
  assumes "bold_led ws s" and "bold_closed e s"
  shows "bold_led True (strip s)" and "bold_closed True (strip s)"
proof -
  obtain t where t: "lstrip s = rstrip (lstrip s) @ t"
    using rstrip_decomp by blast
  from assms(1) have "bold_led True (lstrip s)" by (rule bold_led_lstrip)
  with t have "bold_led True (rstrip (lstrip s))"
    using bold_led_prefix by metis
  then show "bold_led True (strip s)" by (simp add: strip_def)
  from assms(2) have "bold_closed e (lstrip s)" by (rule bold_closed_lstrip)
  with t have "bold_closed True (rstrip (lstrip s))"
    using bold_closed_prefix by metis
  then show "bold_closed True (strip s)" by (simp add: strip_def)
qed

lemma sub_bold_before_tidy:
  assumes "bold_led True y"
  shows "sub_bold_before False y = (if starts_with y ''**'' then CHR '' '' # y else y)"
proof (cases "starts_with y ''**''")
  case True
  then obtain rest where y: "y = CHR ''*'' # CHR ''*'' # rest"
    by (cases y; cases "tl y") auto
  with assms have "bold_led False (CHR ''*'' # rest)" by simp
  then have "bold_led False rest"
    using bold_led_tail by fastforce
  then have "sub_bold_before False rest = rest"
    by (rule sub_bold_before_led)
  with y show ?thesis by simp
next
  case False
  with assms have "bold_led False y"
    by (cases "(True, y)" rule: bold_led.cases) auto
  then have "sub_bold_before False y = y"
    by (rule sub_bold_before_led)
  with False show ?thesis by simp
qed

lemma sub_bold_after_space: "sub_bold_after (CHR '' '' # y) = CHR '' '' # sub_bold_after y"
proof (cases y)
  case Nil
  then show ?thesis by simp
next
  case (Cons d cs)
  have "\<not> open_pair (CHR '' '') d cs" by (simp add: open_pair_def)
  with Cons show ?thesis by (simp add: sub_bold_after_skip)
qed

lemma strip_pad:
  assumes "y \<noteq> []" and "\<not> isspace (hd y)" and "\<not> isspace (last y)"
    and "\<forall>c \<in> set a. isspace c" and "\<forall>c \<in> set b. isspace c"
  shows "strip (a @ y @ b) = y"
proof -
  from assms(1,2) have "dropWhile isspace (y @ b) = y @ b"
    by (cases y) auto
  with assms(4) have l: "lstrip (a @ y @ b) = y @ b"
    by (simp add: lstrip_def dropWhile_append2)
  from assms(1,3) have "dropWhile isspace (rev y) = rev y"
    by (cases y rule: rev_cases) auto
  moreover from assms(5) have "dropWhile isspace (rev b @ rev y) = dropWhile isspace (rev y)"
    by (intro dropWhile_append2) simp
  ultimately have "rstrip (y @ b) = y"
    by (simp add: rstrip_def)
  with l show ?thesis by (simp add: strip_def)
qed

lemma spaced_hd: "spaced True y \<Longrightarrow> y \<noteq> [] \<Longrightarrow> \<not> isspace (hd y)"
  by (cases y) auto

lemma strip_Nil: "strip [] = []"
  by (simp add: strip_def lstrip_def rstrip_def)

lemma clean_fixed:
  assumes n: "spaced True f" "no_space_end f" and al: "\<forall>c \<in> set f. allowed_char c"
  shows "clean_response_text (strip (sub_bold_after (sub_bold_before False f)))
           = strip (sub_bold_after (sub_bold_before False f))"
proof -
  define u where "u = sub_bold_after (sub_bold_before False f)"
  define y where "y = strip u"
  from n(1) have "spaced False f" by (rule spaced_weaken)
  then have "spaced False u"
    unfolding u_def by (intro sub_bold_after_spaced sub_bold_before_spaced)
  then have yn: "spaced True y" "no_space_end y"
    unfolding y_def using strip_normal by blast+
  then have j: "join_space (split y) = y"
    by (rule join_split_normal)
  have "set y \<subseteq> insert (CHR '' '') (set f)"
    unfolding y_def u_def
    using set_strip [of "sub_bold_after (sub_bold_before False f)"]
      set_sub_bold_after [of "sub_bold_before False f"]
      set_sub_bold_before [of False f] by blast
  with al have "\<forall>c \<in> set y. allowed_char c" by auto
  then have fl: "filter allowed_char y = y" by simp
  have "bold_run False (sub_bold_before False f)"
    by (rule sub_bold_before_run) simp
  then have "bold_led False u" unfolding u_def by (rule sub_bold_after_led)
  moreover have "bold_closed False u" unfolding u_def by (rule sub_bold_after_closed)
  ultimately have lc: "bold_led True y" "bold_closed True y"
    unfolding y_def using strip_led_closed by blast+
  define a where "a = (if starts_with y ''**'' then '' '' else [])"
  define b where "b = (if ends_with y ''**'' then '' '' else [])"
  have "sub_bold_before False y = a @ y"
    using sub_bold_before_tidy [OF lc(1)] by (simp add: a_def)
  moreover have "sub_bold_after (a @ y) = a @ sub_bold_after y"
    by (simp add: a_def sub_bold_after_space)
  moreover have "sub_bold_after y = y @ b"
    using sub_bold_after_fixed [OF lc(2)] by (simp add: b_def)
  ultimately have ab: "sub_bold_after (sub_bold_before False y) = a @ y @ b"
    by simp
  have "strip (a @ y @ b) = y"
  proof (cases "y = []")
    case True
    then show ?thesis by (simp add: a_def b_def ends_with_def strip_Nil)
  next
    case False
    with yn have "\<not> isspace (hd y)" "\<not> isspace (last y)"
      by (auto simp: spaced_hd no_space_end_def)
    with False show ?thesis
      by (intro strip_pad) (auto simp: a_def b_def)
  qed
  with ab j fl have "clean_response_text y = y"
    by (simp add: clean_response_text_def)
  then show ?thesis by (simp add: y_def u_def)
qed

lemma split_words:
  "v \<in> set (split s) \<Longrightarrow> v \<noteq> [] \<and> (\<forall>c \<in> set v. \<not> isspace c) \<and> set v \<subseteq> set s"
  using split_acc_words [of v "[]" s] by (simp add: split_def)

lemma join_split_allowed:
  assumes "\<forall>c \<in> set x. allowed_char c"
  shows "filter allowed_char (join_space (split x)) = join_space (split x)"
proof -
  have "set (join_space (split x)) \<subseteq> insert (CHR '' '') (set x)"
    using set_join_space [of "split x"] split_words [of _ x] by blast
  with assms have "\<forall>c \<in> set (join_space (split x)). allowed_char c" by auto
  then show ?thesis by simp
qed

text \<open>
  C5, as the code has it. For every input string, the empty one and those of control
  characters included, the cleaned text holds only characters of the allow-list (letters,
  digits, whitespace and \<open>. , ! ? $ : ( ) - + * / \\<close>). Cleaning is idempotent on every
  input that itself holds only characters of the allow-list.
\<close>

theorem clean_response_text_allowed_idempotent:
  "(\<forall>c \<in> set (clean_response_text x). allowed_char c)
   \<and> ((\<forall>c \<in> set x. allowed_char c)
        \<longrightarrow> clean_response_text (clean_response_text x) = clean_response_text x)"
proof (intro conjI impI ballI)
  fix c
  assume "c \<in> set (clean_response_text x)"
  then show "allowed_char c" by (rule clean_allowed)
next
  assume al: "\<forall>c \<in> set x. allowed_char c"
  let ?f = "join_space (split x)"
  have n: "spaced True ?f" "no_space_end ?f"
    using join_space_normal [of "split x"] split_words [of _ x] by blast+
  from al have fl: "filter allowed_char ?f = ?f" by (rule join_split_allowed)
  then have "\<forall>c \<in> set ?f. allowed_char c"
    by (metis filter_id_conv)
  from clean_fixed [OF n this] fl
  show "clean_response_text (clean_response_text x) = clean_response_text x"
    by (simp add: clean_response_text_def)
qed

text \<open>A text of allowed characters with bold markers and a run of spaces.\<close>

theorem clean_response_text_allowed_idempotent_witness:
  "list_all allowed_char ''**Cola**   costs $2''
   \<and> clean_response_text ''**Cola**   costs $2'' = ''** Cola ** costs $2''
   \<and> clean_response_text (clean_response_text ''**Cola**   costs $2'')
       = clean_response_text ''**Cola**   costs $2''"
proof -
  have a: "list_all allowed_char ''**Cola**   costs $2''" by code_simp
  then have "\<forall>c \<in> set ''**Cola**   costs $2''. allowed_char c"
    by (simp only: list_all_iff)
  with clean_response_text_allowed_idempotent [of "''**Cola**   costs $2''"]
  have "clean_response_text (clean_response_text ''**Cola**   costs $2'')
       = clean_response_text ''**Cola**   costs $2''"
    by blast
  moreover have "clean_response_text ''**Cola**   costs $2'' = ''** Cola ** costs $2''"
    by code_simp
  ultimately show ?thesis using a by simp
qed

text \<open>
  C5 as stated fails: cleaning removes a disallowed character that stands between two
  spaces after it has collapsed the whitespace, so the two spaces stay, and a second
  cleaning collapses them.
\<close>

theorem clean_response_text_not_idempotent:
  "clean_response_text ''a @ b'' = ''a  b''
   \<and> clean_response_text (clean_response_text ''a @ b'') = ''a b''"
  by code_simp

declare sub_bold_after.simps(1) [simp]

subsection \<open>Degenerate responses\<close>

lemma stage2_details_alt:
  "stage2_details json_loads kind detail =
     (fst (clean_details (fst (stage2_try json_loads kind detail))),
      snd (clean_details (fst (stage2_try json_loads kind detail))),
      snd (stage2_try json_loads kind detail))"
  by (simp add: stage2_details_def split: prod.splits)

lemma split_acc_spaces: "\<forall>c \<in> set a. isspace c \<Longrightarrow> split_acc [] (a @ r) = split_acc [] r"
  by (induction a) auto

lemma split_acc_word: "\<forall>c \<in> set y. \<not> isspace c \<Longrightarrow> split_acc w (y @ r) = split_acc (w @ y) r"
  by (induction y arbitrary: w) auto

lemma split_acc_trailing:
  "\<forall>c \<in> set b. isspace c \<Longrightarrow> split_acc w b = (if w = [] then [] else [w])"
  by (induction b arbitrary: w) auto

lemma split_strip:
  assumes "strip t \<noteq> []" and "\<forall>c \<in> set (strip t). \<not> isspace c"
  shows "split t = [strip t]"
proof -
  have t: "t = takeWhile isspace t @ lstrip t"
    by (simp add: lstrip_def)
  obtain b where b: "lstrip t = strip t @ b" "\<forall>c \<in> set b. isspace c"
    using rstrip_decomp [of "lstrip t"] by (auto simp: strip_def)
  have "split t = split_acc [] (takeWhile isspace t @ lstrip t)"
    using t by (simp add: split_def)
  also have "\<dots> = split_acc [] (lstrip t)"
    by (rule split_acc_spaces) (auto dest: set_takeWhileD)
  also have "\<dots> = split_acc (strip t) b"
    using split_acc_word [OF assms(2), of "[]" b] b(1) by simp
  also have "\<dots> = [strip t]"
    using split_acc_trailing [OF b(2)] assms(1) by simp
  finally show ?thesis .
qed

lemma fragment_shape:
  "f \<in> set fragments \<Longrightarrow> f \<noteq> [] \<and> (\<forall>c \<in> set f. \<not> isspace c) \<and> filter allowed_char f = []"
  by (auto simp: fragments_def allowed_char_def isspace_def code_def)

lemma clean_fragment: "strip t \<in> set fragments \<Longrightarrow> clean_response_text t = []"
proof -
  assume f: "strip t \<in> set fragments"
  from fragment_shape [OF f] have "split t = [strip t]" "filter allowed_char (strip t) = []"
    by (auto intro: split_strip)
  then show ?thesis
    by (simp add: clean_response_text_def strip_Nil)
qed


lemma clean_canned_details:
  "clean_response_text ''I'm sorry, I didn't receive valid details.''
     = ''Im sorry, I didnt receive valid details.''"
  by code_simp

lemma clean_details_error:
  "snd (clean_details (c, ''error'')) = ''error''"
  by (simp add: clean_details_def Let_def)

lemma clean_details_canned:
  "clean_details (''I'm sorry, I didn't receive valid details.'', ''error'')
     = (''Im sorry, I didnt receive valid details.'', ''error'')"
proof -
  have n: "strip ''Im sorry, I didnt receive valid details.'' \<notin> set fragments"
    using clean_strip_not_fragment [of "''I'm sorry, I didn't receive valid details.''"]
    unfolding clean_canned_details .
  have e: "''Im sorry, I didnt receive valid details.'' \<noteq> []"
    by simp
  show ?thesis
    unfolding clean_details_def Let_def fst_conv snd_conv clean_canned_details
    by (simp only: n e simp_thms if_False)
qed


lemma degenerate_details:
  assumes "clean_response_text s = [] \<or> strip s \<in> set fragments"
  shows "snd (clean_details (validate_details (JStr s) final)) = ''error''"
    and "fst (clean_details (validate_details (JStr s) final))
           \<in> {''I'm sorry, I didn't receive valid details.'',
              ''Im sorry, I didnt receive valid details.''}"
proof -
  have "clean_details (validate_details (JStr s) final)
      = (''I'm sorry, I didn't receive valid details.'', ''error'')
    \<or> clean_details (validate_details (JStr s) final)
      = (''Im sorry, I didnt receive valid details.'', ''error'')"
  proof (cases "s = [] \<or> strip s \<in> set fragments")
    case True
    then have "validate_details (JStr s) final
        = (''I'm sorry, I didn't receive valid details.'', ''error'')"
      by (auto simp: validate_details_def)
    then show ?thesis by (simp only: clean_details_canned) simp
  next
    case False
    with assms have c: "clean_response_text s = []" by blast
    from False have "validate_details (JStr s) final = (s, final)"
      by (simp add: validate_details_def)
    with c show ?thesis by (simp add: clean_details_def)
  qed
  then show "snd (clean_details (validate_details (JStr s) final)) = ''error''"
    and "fst (clean_details (validate_details (JStr s) final))
           \<in> {''I'm sorry, I didn't receive valid details.'',
              ''Im sorry, I didnt receive valid details.''}"
    by auto
qed




subsection \<open>The cart after an order reply\<close>

lemma extract_first_None:
  "\<forall>m \<in> set ms. \<forall>d. json_loads m = Some (JObj d) \<longrightarrow> ''response'' \<notin> fst ` set d
   \<Longrightarrow> extract_first json_loads ms = None"
proof (induction ms)
  case Nil
  then show ?case by simp
next
  case (Cons m ms)
  then have rest: "extract_first json_loads ms = None" by simp
  show ?case
  proof (cases "json_loads m")
    case None
    with rest show ?thesis by simp
  next
    case (Some v)
    show ?thesis
    proof (cases v)
      case (JObj d)
      with Some Cons.prems have "map_of d ''response'' = None"
        by (simp add: map_of_eq_None_iff)
      with Some JObj rest show ?thesis by simp
    qed (use Some rest in simp_all)
  qed
qed

lemma stage2_order_cart:
  "snd (snd (stage2_details json_loads ''order_action_pending'' detail))
     = Some (snd (handle_order_query json_loads detail))"
  by (simp add: stage2_details_alt stage2_try_def stage2_call_def split: prod.splits)

lemma stage2_update_cart:
  "current_cart (stage2_update json_loads kind detail st)
     = (case snd (snd (stage2_details json_loads kind detail)) of
          None \<Rightarrow> current_cart st | Some items \<Rightarrow> items)"
  by (simp add: stage2_update_def Let_def split: prod.splits option.splits)

text \<open>
  C1, as the code has it. When no match of the brace pattern in the order handler's reply
  decodes to a dict with the key \<open>"response"\<close>, the handler returns the reply unchanged
  together with the cart \<open>[]\<close>, a list and not \<open>None\<close>: \<open>stage2_cart_items\<close> is \<open>[]\<close>, and the
  caller replaces the session's cart by it. For any outcome of the model call the handler
  returns a list, and stage two replaces the session's cart by that list.
\<close>

theorem order_reply_without_candidate_empties_cart:
  assumes "\<forall>m \<in> set (findall_objects c).
             \<forall>d. json_loads m = Some (JObj d) \<longrightarrow> ''response'' \<notin> fst ` set d"
  shows "handle_order_query json_loads (Reply c) = (JStr c, [])
    \<and> snd (snd (stage2_details json_loads ''order_action_pending'' (Reply c))) = Some []
    \<and> current_cart (stage2_update json_loads ''order_action_pending'' (Reply c) st) = []
    \<and> snd (snd (stage2_details json_loads ''order_action_pending'' detail))
        = Some (snd (handle_order_query json_loads detail))
    \<and> current_cart (stage2_update json_loads ''order_action_pending'' detail st)
        = snd (handle_order_query json_loads detail)"
proof -
  from assms have h: "handle_order_query json_loads (Reply c) = (JStr c, [])"
    by (simp add: handle_order_query_def extract_first_None)
  then show ?thesis
    by (simp add: stage2_order_cart stage2_update_cart)
qed

text \<open>
  A reply with two matches, one that does not decode and one that decodes to a dict
  without the key, given a session whose cart holds one line.
\<close>

theorem order_reply_without_candidate_empties_cart_witness:
  "findall_objects ''Sure {one} burger {} coming up.'' = [''{one}'', ''{}'']
   \<and> sample_loads ''{one}'' = None
   \<and> sample_loads ''{}'' = Some (JObj [])
   \<and> handle_order_query sample_loads (Reply ''Sure {one} burger {} coming up.'')
       = (JStr ''Sure {one} burger {} coming up.'', [])
   \<and> current_cart (stage2_update sample_loads ''order_action_pending''
         (Reply ''Sure {one} burger {} coming up.'')
         \<lparr>messages = [], actions = [], current_cart = [JObj [(''item'', JStr ''Fries'')]]\<rparr>) = []"
proof -
  have f: "findall_objects ''Sure {one} burger {} coming up.'' = [''{one}'', ''{}'']"
    by code_simp
  have l: "sample_loads ''{one}'' = None" "sample_loads ''{}'' = Some (JObj [])"
    by (simp_all add: sample_loads_def)
  have h: "\<forall>m \<in> set (findall_objects ''Sure {one} burger {} coming up.'').
       \<forall>d. sample_loads m = Some (JObj d) \<longrightarrow> ''response'' \<notin> fst ` set d"
    unfolding f using l by auto
  from order_reply_without_candidate_empties_cart [OF h] f l show ?thesis
    by blast
qed

text \<open>
  C1 as stated fails: after a reply in plain prose the cart of stage two is \<open>[]\<close>, not
  absent, and a session cart of one line is replaced by the empty cart.
\<close>

theorem prose_order_reply_overwrites_cart:
  "snd (snd (stage2_details sample_loads ''order_action_pending''
       (Reply ''Sure, one burger coming up.''))) = Some []
   \<and> current_cart (stage2_update sample_loads ''order_action_pending''
         (Reply ''Sure, one burger coming up.'')
         \<lparr>messages = [], actions = [], current_cart = [JObj [(''item'', JStr ''Fries'')]]\<rparr>) = []"
proof -
  have "handle_order_query sample_loads (Reply ''Sure, one burger coming up.'')
          = (JStr ''Sure, one burger coming up.'', [])"
    by code_simp
  then show ?thesis
    by (simp add: stage2_order_cart stage2_update_cart)
qed


subsection \<open>The transition table\<close>

lemma clean_response_text_Nil: "clean_response_text [] = []"
  by code_simp

lemma stage2_kind_exact:
  "snd (clean_details (validate_details u final)) =
     (case u of
        JStr t \<Rightarrow> if clean_response_text t = [] then ''error'' else final
      | _ \<Rightarrow> ''error'')"
proof (cases u)
  case (JStr t)
  show ?thesis
  proof (cases "clean_response_text t = []")
    case True
    with JStr degenerate_details(1) [of t final] show ?thesis by simp
  next
    case False
    then have "t \<noteq> []" "strip t \<notin> set fragments"
      using clean_response_text_Nil clean_fragment by auto
    then have "validate_details (JStr t) final = (t, final)"
      by (simp add: validate_details_def)
    with False JStr clean_strip_not_fragment [of t] show ?thesis
      by (simp add: clean_details_def Let_def)
  qed
qed (simp_all add: validate_details_def clean_details_error)

lemma stage2_details_kind:
  "fst (snd (stage2_details json_loads kind detail)) =
     (case stage2_call json_loads kind detail of
        (v, final, cart) \<Rightarrow>
          (case unwrap_json json_loads v of
             JStr t \<Rightarrow> if clean_response_text t = [] then ''error'' else final
           | _ \<Rightarrow> ''error''))"
  by (simp add: stage2_details_alt stage2_try_def stage2_kind_exact split: prod.splits)

lemma classify_emits_query:
  "classify_and_respond json_loads query router farewell = Inr (Respond ev) \<Longrightarrow> query \<noteq> []
   \<Longrightarrow> has_query ev"
  by (auto simp: classify_and_respond_def dispatch_def direct_stop_def has_query_def
      split: llm_result.splits sum.splits if_splits json.splits)

text \<open>
  C3, as the code has it. For each intent that parsing returns, the action type of the
  first stage is the one of the table (greeting, \<open>history_query\<close>, \<open>end_conversation\<close>,
  \<open>irrelevant_query\<close>, \<open>menu_inquiry_pending\<close>, \<open>order_action_pending\<close>), and a failed
  classification call gives the caller a record with the action type error. The second
  stage on a pending kind gives \<open>menu_inquiry\<close> or \<open>order_action\<close> in exactly these cases.
  In the workflow's step: when the event carries a non-empty query, as every event
  emitted for a non-empty utterance does; without one the step gives error, and for the
  order kind a handler text that is not a \<open>str\<close> makes the step raise. In the caller's
  stage two: when the content to display (the handler's text, or the value under
  \<open>response\<close> when that text is decoded to a dict with this key) is a \<open>str\<close> that is not
  empty after cleaning; in every other case stage two gives error.
\<close>

theorem transition_table:
  "(parse_router json_loads t = Inr (intent, direct) \<longrightarrow>
      result_kind (dispatch query intent direct farewell) =
        (if intent = ''greeting'' then ''greeting''
         else if intent = ''history'' then ''history_query''
         else if intent = ''end'' then ''end_conversation''
         else if intent = ''irrelevant'' then ''irrelevant_query''
         else if intent = ''menu'' then ''menu_inquiry_pending''
         else ''order_action_pending''))
   \<and> stop_action_type (process_message (workflow_run json_loads query (Raises e) farewell))
       = ''error''
   \<and> (classify_and_respond json_loads query router farewell = Inr (Respond ev) \<and> query \<noteq> []
        \<longrightarrow> has_query ev)
   \<and> (action_type ev = ''menu_inquiry_pending'' \<longrightarrow>
        generate_detailed_response json_loads ev detail =
          (if has_query ev then
             Inr \<lparr>response = handle_menu_query detail, action_type = ''menu_inquiry'',
                  original_query = None, cart_items = None\<rparr>
           else
             Inr \<lparr>response = ''Error: Missing query for menu info.'', action_type = ''error'',
                  original_query = None, cart_items = None\<rparr>))
   \<and> (action_type ev = ''order_action_pending'' \<longrightarrow>
        generate_detailed_response json_loads ev detail =
          (if has_query ev then
             (case fst (handle_order_query json_loads detail) of
                JStr text \<Rightarrow>
                  Inr \<lparr>response = text, action_type = ''order_action'', original_query = None,
                       cart_items = Some (snd (handle_order_query json_loads detail))\<rparr>
              | _ \<Rightarrow> Inl PythonError)
           else
             Inr \<lparr>response = ''Error: Missing query for order action.'', action_type = ''error'',
                  original_query = None, cart_items = None\<rparr>))
   \<and> fst (snd (stage2_details json_loads ''menu_inquiry_pending'' detail)) =
       (case unwrap_json json_loads (JStr (handle_menu_query detail)) of
          JStr text \<Rightarrow> if clean_response_text text = [] then ''error'' else ''menu_inquiry''
        | _ \<Rightarrow> ''error'')
   \<and> fst (snd (stage2_details json_loads ''order_action_pending'' detail)) =
       (case unwrap_json json_loads (fst (handle_order_query json_loads detail)) of
          JStr text \<Rightarrow> if clean_response_text text = [] then ''error'' else ''order_action''
        | _ \<Rightarrow> ''error'')"
proof (intro conjI impI; (elim conjE)?)
  assume "parse_router json_loads t = Inr (intent, direct)"
  then show "result_kind (dispatch query intent direct farewell) =
        (if intent = ''greeting'' then ''greeting''
         else if intent = ''history'' then ''history_query''
         else if intent = ''end'' then ''end_conversation''
         else if intent = ''irrelevant'' then ''irrelevant_query''
         else if intent = ''menu'' then ''menu_inquiry_pending''
         else ''order_action_pending'')"
    by (rule first_stage_kind)
next
  show "stop_action_type (process_message (workflow_run json_loads query (Raises e) farewell))
       = ''error''"
    by (simp add: classify_and_respond_def workflow_run_def process_message_def)
next
  assume "classify_and_respond json_loads query router farewell = Inr (Respond ev)"
    and "query \<noteq> []"
  then show "has_query ev" by (rule classify_emits_query)
next
  assume "action_type ev = ''menu_inquiry_pending''"
  then show "generate_detailed_response json_loads ev detail =
          (if has_query ev then
             Inr \<lparr>response = handle_menu_query detail, action_type = ''menu_inquiry'',
                  original_query = None, cart_items = None\<rparr>
           else
             Inr \<lparr>response = ''Error: Missing query for menu info.'', action_type = ''error'',
                  original_query = None, cart_items = None\<rparr>)"
    by (simp add: generate_detailed_response_def)
next
  assume "action_type ev = ''order_action_pending''"
  then show "generate_detailed_response json_loads ev detail =
          (if has_query ev then
             (case fst (handle_order_query json_loads detail) of
                JStr text \<Rightarrow>
                  Inr \<lparr>response = text, action_type = ''order_action'', original_query = None,
                       cart_items = Some (snd (handle_order_query json_loads detail))\<rparr>
              | _ \<Rightarrow> Inl PythonError)
           else
             Inr \<lparr>response = ''Error: Missing query for order action.'', action_type = ''error'',
                  original_query = None, cart_items = None\<rparr>)"
    by (simp add: generate_detailed_response_def split: prod.splits json.splits)
next
  show "fst (snd (stage2_details json_loads ''menu_inquiry_pending'' detail)) =
       (case unwrap_json json_loads (JStr (handle_menu_query detail)) of
          JStr text \<Rightarrow> if clean_response_text text = [] then ''error'' else ''menu_inquiry''
        | _ \<Rightarrow> ''error'')"
    by (simp add: stage2_details_kind stage2_call_def)
next
  show "fst (snd (stage2_details json_loads ''order_action_pending'' detail)) =
       (case unwrap_json json_loads (fst (handle_order_query json_loads detail)) of
          JStr text \<Rightarrow> if clean_response_text text = [] then ''error'' else ''order_action''
        | _ \<Rightarrow> ''error'')"
    by (simp add: stage2_details_kind stage2_call_def split: prod.splits)
qed


text \<open>
  C3 as stated fails: on the pending menu kind, stage two gives error when the model
  replies \<open>{}\<close>.
\<close>

theorem degenerate_detail_gives_error:
  "fst (snd (stage2_details sample_loads ''menu_inquiry_pending'' (Reply ''{}''))) = ''error''"
  by code_simp

text \<open>An order run and a menu run in which the second stage reaches its final kind.\<close>

theorem transition_table_witness:
  "parse_router sample_loads ''{\"intent\": \"ORDER\", \"response\": \"\"}'' = Inr (''order'', JStr [])
   \<and> result_kind (dispatch ''add a burger'' ''order'' (JStr []) (Reply []))
       = ''order_action_pending''
   \<and> classify_and_respond sample_loads ''add a burger''
        (Reply ''{\"intent\": \"ORDER\", \"response\": \"\"}'') (Reply [])
       = Inr (Respond
           \<lparr>response = ''Give us a moment while we get that order modification ready for you.'',
            action_type = ''order_action_pending'', original_query = Some ''add a burger'',
            cart_items = None\<rparr>)
   \<and> has_query
        \<lparr>response = ''Give us a moment while we get that order modification ready for you.'',
         action_type = ''order_action_pending'', original_query = Some ''add a burger'',
         cart_items = None\<rparr>
   \<and> generate_detailed_response sample_loads
        \<lparr>response = ''Give us a moment while we get that order modification ready for you.'',
         action_type = ''order_action_pending'', original_query = Some ''add a burger'',
         cart_items = None\<rparr>
        (Reply ''Sure! {\"response\": \"Added.\", \"cart\": [{\"item\": \"Burger\", \"quantity\": 1}]}'')
       = Inr \<lparr>response = ''Added.'', action_type = ''order_action'', original_query = None,
              cart_items = Some [JObj [(''item'', JStr ''Burger''), (''quantity'', JNum 1)]]\<rparr>
   \<and> fst (snd (stage2_details sample_loads ''order_action_pending''
          (Reply ''Sure! {\"response\": \"Added.\", \"cart\": [{\"item\": \"Burger\", \"quantity\": 1}]}'')))
       = ''order_action''
   \<and> generate_detailed_response sample_loads
        \<lparr>response = ''Give us a moment while we research that for you.'',
         action_type = ''menu_inquiry_pending'', original_query = Some ''what drinks?'',
         cart_items = None\<rparr>
        (Reply ''We have **Cola** for $2.'')
       = Inr \<lparr>response = ''We have **Cola** for $2.'', action_type = ''menu_inquiry'',
              original_query = None, cart_items = None\<rparr>
   \<and> fst (snd (stage2_details sample_loads ''menu_inquiry_pending''
          (Reply ''We have **Cola** for $2.''))) = ''menu_inquiry''"
proof -
  let ?router = "Reply ''{\"intent\": \"ORDER\", \"response\": \"\"}''"
  let ?order = "Reply ''Sure! {\"response\": \"Added.\", \"cart\": [{\"item\": \"Burger\", \"quantity\": 1}]}''"
  let ?menu = "Reply ''We have **Cola** for $2.''"
  let ?ack_order = "\<lparr>response = ''Give us a moment while we get that order modification ready for you.'',
           action_type = ''order_action_pending'', original_query = Some ''add a burger'',
           cart_items = None\<rparr>"
  let ?ack_menu = "\<lparr>response = ''Give us a moment while we research that for you.'',
           action_type = ''menu_inquiry_pending'', original_query = Some ''what drinks?'',
           cart_items = None\<rparr>"
  have p: "parse_router sample_loads ''{\"intent\": \"ORDER\", \"response\": \"\"}''
             = Inr (''order'', JStr [])"
    by code_simp
  have c: "classify_and_respond sample_loads ''add a burger'' ?router (Reply [])
             = Inr (Respond ?ack_order)"
    by code_simp
  have q: "action_type ?ack_order = ''order_action_pending''"
    "action_type ?ack_menu = ''menu_inquiry_pending''" "has_query ?ack_menu"
    by (simp_all add: has_query_def)
  have o: "handle_order_query sample_loads ?order
             = (JStr ''Added.'', [JObj [(''item'', JStr ''Burger''), (''quantity'', JNum 1)]])"
    by code_simp
  have uo: "unwrap_json sample_loads (JStr ''Added.'') = JStr ''Added.''"
    "clean_response_text ''Added.'' \<noteq> []"
    by code_simp+
  have m: "handle_menu_query ?menu = ''We have **Cola** for $2.''"
    by (simp add: handle_menu_query_def)
  have um: "unwrap_json sample_loads (JStr ''We have **Cola** for $2.'')
              = JStr ''We have **Cola** for $2.''"
    "clean_response_text ''We have **Cola** for $2.'' \<noteq> []"
    by code_simp+
  note a = transition_table [where json_loads = sample_loads
      and t = "''{\"intent\": \"ORDER\", \"response\": \"\"}''" and intent = "''order''"
      and direct = "JStr []" and query = "''add a burger''" and farewell = "Reply []"
      and router = ?router and ev = ?ack_order and detail = ?order]
  note b = transition_table [where ev = ?ack_menu and detail = ?menu and json_loads = sample_loads]
  from a p have k: "result_kind (dispatch ''add a burger'' ''order'' (JStr []) (Reply []))
      = ''order_action_pending''"
    by simp
  from a c have h: "has_query ?ack_order"
    by simp
  from a q(1) have "generate_detailed_response sample_loads ?ack_order ?order =
      (if has_query ?ack_order then
         (case fst (handle_order_query sample_loads ?order) of
            JStr text \<Rightarrow>
              Inr \<lparr>response = text, action_type = ''order_action'', original_query = None,
                   cart_items = Some (snd (handle_order_query sample_loads ?order))\<rparr>
          | _ \<Rightarrow> Inl PythonError)
       else
         Inr \<lparr>response = ''Error: Missing query for order action.'', action_type = ''error'',
              original_query = None, cart_items = None\<rparr>)"
    by blast
  then have g: "generate_detailed_response sample_loads ?ack_order ?order
      = Inr \<lparr>response = ''Added.'', action_type = ''order_action'', original_query = None,
              cart_items = Some [JObj [(''item'', JStr ''Burger''), (''quantity'', JNum 1)]]\<rparr>"
    by (simp only: h o fst_conv snd_conv json.case if_True)
  from a have "fst (snd (stage2_details sample_loads ''order_action_pending'' ?order)) =
       (case unwrap_json sample_loads (fst (handle_order_query sample_loads ?order)) of
          JStr text \<Rightarrow> if clean_response_text text = [] then ''error'' else ''order_action''
        | _ \<Rightarrow> ''error'')"
    by blast
  then have so: "fst (snd (stage2_details sample_loads ''order_action_pending'' ?order))
      = ''order_action''"
    by (simp only: o fst_conv uo json.case if_False)
  from b q(2) have "generate_detailed_response sample_loads ?ack_menu ?menu =
      (if has_query ?ack_menu then
         Inr \<lparr>response = handle_menu_query ?menu, action_type = ''menu_inquiry'',
              original_query = None, cart_items = None\<rparr>
       else
         Inr \<lparr>response = ''Error: Missing query for menu info.'', action_type = ''error'',
              original_query = None, cart_items = None\<rparr>)"
    by blast
  then have gm: "generate_detailed_response sample_loads ?ack_menu ?menu
      = Inr \<lparr>response = ''We have **Cola** for $2.'', action_type = ''menu_inquiry'',
              original_query = None, cart_items = None\<rparr>"
    by (simp only: q(3) m if_True)
  from b have "fst (snd (stage2_details sample_loads ''menu_inquiry_pending'' ?menu)) =
       (case unwrap_json sample_loads (JStr (handle_menu_query ?menu)) of
          JStr text \<Rightarrow> if clean_response_text text = [] then ''error'' else ''menu_inquiry''
        | _ \<Rightarrow> ''error'')"
    by blast
  then have sm: "fst (snd (stage2_details sample_loads ''menu_inquiry_pending'' ?menu))
      = ''menu_inquiry''"
    by (simp only: m um json.case if_False)
  from p k c h g so gm sm show ?thesis
    by (intro conjI)
qed


subsection \<open>The history window\<close>

text \<open>
  C8. The history with which a workflow is constructed is exactly the most recent 20 turns
  of the conversation, all of them when there are 20 or fewer, in their original order:
  it has \<open>min 20 n\<close> entries, and entry \<open>i\<close> is turn \<open>n - min 20 n + i\<close> of the
  conversation, with its content and its role (user, and assistant for any other).
\<close>

theorem create_chat_engine_window:
  "length (create_chat_engine h) = min 20 (length h)
   \<and> create_chat_engine h = map format_message (drop (length h - 20) h)
   \<and> (length h \<le> 20 \<longrightarrow> create_chat_engine h = map format_message h)
   \<and> (\<forall>i < min 20 (length h).
        create_chat_engine h ! i = format_message (h ! (length h - min 20 (length h) + i)))"
  by (auto simp: create_chat_engine_def last_n_def min_def)

text \<open>A conversation of 23 turns: the window starts at turn 3 and ends at turn 22.\<close>

theorem create_chat_engine_window_witness:
  "length (create_chat_engine
       (map (\<lambda>k. (if even k then ''user'' else ''assistant'', str_of_nat k)) [0..<23])) = 20
   \<and> create_chat_engine
       (map (\<lambda>k. (if even k then ''user'' else ''assistant'', str_of_nat k)) [0..<23]) ! 0
       = \<lparr>role = ASSISTANT, content = ''3''\<rparr>
   \<and> create_chat_engine
       (map (\<lambda>k. (if even k then ''user'' else ''assistant'', str_of_nat k)) [0..<23]) ! 19
       = \<lparr>role = USER, content = ''22''\<rparr>"
proof -
  let ?h = "map (\<lambda>k. (if even k then ''user'' else ''assistant'', str_of_nat k)) [0..<23]"
  have l: "length ?h = 23" by simp
  have e: "format_message (?h ! 3) = \<lparr>role = ASSISTANT, content = ''3''\<rparr>"
    "format_message (?h ! 22) = \<lparr>role = USER, content = ''22''\<rparr>"
    by code_simp+
  from create_chat_engine_window [of ?h] have
    w: "length (create_chat_engine ?h) = min 20 (length ?h)"
    and n: "\<forall>i < min 20 (length ?h).
        create_chat_engine ?h ! i = format_message (?h ! (length ?h - min 20 (length ?h) + i))"
    by blast+
  have "(0::nat) < min 20 (length ?h)" "(19::nat) < min 20 (length ?h)"
    by simp_all
  with n have "create_chat_engine ?h ! 0 = format_message (?h ! (length ?h - min 20 (length ?h) + 0))"
    "create_chat_engine ?h ! 19 = format_message (?h ! (length ?h - min 20 (length ?h) + 19))"
    by blast+
  moreover have "length ?h - min 20 (length ?h) + 0 = 3" "length ?h - min 20 (length ?h) + 19 = 22"
    by simp_all
  ultimately have "create_chat_engine ?h ! 0 = format_message (?h ! 3)"
    "create_chat_engine ?h ! 19 = format_message (?h ! 22)"
    by (simp_all only:)
  moreover from w have "length (create_chat_engine ?h) = 20"
    by simp
  ultimately show ?thesis by (simp only: e)
qed


end
